theory Spec2Isabelle
  imports Complex_Main "HOL-Library.Word" "HOL-Library.AList"
begin

section \<open>Data model (simulation\_events\_and\_data.h, ecs\_core.h)\<close>

text \<open>
  \<open>Entity\<close> and \<open>EventId\<close> are \<open>uint64_t\<close>. A finite \<open>double\<close> is modelled by the
  \<open>real\<close> that it denotes; comparisons and the clamp are exact on such values. Where a
  result rests on the value of an arithmetic expression, as for the impedance of a
  fault, the operations are those of IEEE 754 binary64, defined below: the exact
  result rounded to the nearest double, with overflow to an infinity. The C++ \<open>int\<close> of
  a trip delay is never used in arithmetic and is modelled by \<open>int\<close>.
\<close>

type_synonym Entity = "64 word"
type_synonym EventId = "64 word"

record FaultInfo =
  current_kA :: real
  voltage_kV :: real
  impedance_Ohm :: real
  distance_km :: real
  faulty_entity_id :: Entity

text \<open>The default member initialisers of \<open>struct FaultInfo\<close>.\<close>

definition FaultInfo_default :: FaultInfo where
  "FaultInfo_default =
     \<lparr>current_kA = 0, voltage_kV = 220, impedance_Ohm = 0, distance_km = 0,
      faulty_entity_id = 0\<rparr>"

record FrequencyInfo =
  current_sim_time_seconds :: real
  freq_deviation_hz :: real

subsection \<open>binary64 arithmetic\<close>

text \<open>
  The nearest integer, a tie going to the even one.
\<close>

definition round_half_even :: "real \<Rightarrow> int" where
  "round_half_even y =
     (let f = \<lfloor>y\<rfloor>; d = y - of_int f
      in if d < 1 / 2 then f else if 1 / 2 < d then f + 1 else if even f then f else f + 1)"

text \<open>The power of two with an integer exponent.\<close>

definition two_to :: "int \<Rightarrow> real" where
  "two_to k = (if 0 \<le> k then 2 ^ nat k else 1 / 2 ^ nat (- k))"

text \<open>
  The binary exponent of a positive number \<open>x\<close>, the \<open>e\<close> with
  \<open>two_to e \<le> x < two_to (e + 1)\<close>, is found by halving or doubling \<open>x\<close>, at most \<open>n\<close>
  times. The products and quotients of two finite doubles other than 0 have an
  exponent between -2148 and 2098.
\<close>

primrec binade :: "nat \<Rightarrow> real \<Rightarrow> int \<Rightarrow> int" where
  "binade 0 x e = e"
| "binade (Suc n) x e =
     (if 2 \<le> x then binade n (x / 2) (e + 1)
      else if x < 1 then binade n (x * 2) (e - 1)
      else e)"

text \<open>
  A value of type \<open>double\<close>: a finite number, an infinity or a NaN. The two zeros are the
  one number 0.
\<close>

datatype b64 = Fin real | PInf | NInf | NaN

text \<open>
  The result of an arithmetic operation whose exact value is \<open>x\<close>, in the default
  rounding mode: a double has a significand of 53 bits, so the doubles of exponent \<open>e\<close>
  are the multiples of \<open>two_to (e - 52)\<close>; the exponent is at least -1022 (below are
  the subnormal numbers, multiples of \<open>two_to (- 1074)\<close>); \<open>x\<close> goes to the nearest
  multiple, a tie to the even one, and the result is an infinity when that multiple
  is not below \<open>2 ^ 1024\<close>.
\<close>

definition b64_round :: "real \<Rightarrow> b64" where
  "b64_round x =
     (let e = max (binade 2200 \<bar>x\<bar> 0) (- 1022);
          ulp = two_to (e - 52);
          r = of_int (round_half_even (x / ulp)) * ulp
      in if \<bar>r\<bar> < 2 ^ 1024 then Fin r else if 0 < x then PInf else NInf)"

text \<open>The product \<open>x * y\<close> of two finite doubles.\<close>

definition b64_mul :: "real \<Rightarrow> real \<Rightarrow> b64" where
  "b64_mul x y = b64_round (x * y)"

text \<open>
  The quotient \<open>a / b\<close> of two doubles. A divisor 0 is taken as +0, the only zero
  that the product of two positive numbers rounds to.
\<close>

fun b64_div :: "b64 \<Rightarrow> b64 \<Rightarrow> b64" where
  "b64_div (Fin x) (Fin y) =
     (if y \<noteq> 0 then b64_round (x / y)
      else if x = 0 then NaN else if 0 < x then PInf else NInf)"
| "b64_div (Fin x) PInf = Fin 0"
| "b64_div (Fin x) NInf = Fin 0"
| "b64_div PInf (Fin y) = (if 0 \<le> y then PInf else NInf)"
| "b64_div NInf (Fin y) = (if 0 \<le> y then NInf else PInf)"
| "b64_div a b = NaN"

subsection \<open>The impedance of a fault\<close>

text \<open>
  The assignment to \<open>impedance_Ohm\<close>. The fields of \<open>FaultInfo\<close> are finite numbers
  here: the result is \<open>None\<close> when the value assigned is an infinity or a NaN.
\<close>

definition store_impedance_Ohm :: "FaultInfo \<Rightarrow> b64 \<Rightarrow> FaultInfo option" where
  "store_impedance_Ohm f z =
     (case z of Fin r \<Rightarrow> Some (f\<lparr>impedance_Ohm := r\<rparr>) | _ \<Rightarrow> None)"

text \<open>
  \<open>FaultInfo::calculate_impedance_if_needed\<close>: the impedance is
  \<open>(voltage_kV * 1000.0) / (current_kA * 1000.0)\<close>, two products and a quotient of
  doubles.
\<close>

definition calculate_impedance_if_needed :: "FaultInfo \<Rightarrow> FaultInfo option" where
  "calculate_impedance_if_needed f =
     (if impedance_Ohm f = 0 \<and> voltage_kV f > 0 \<and> current_kA f > 0
      then store_impedance_Ohm f
             (b64_div (b64_mul (voltage_kV f) 1000) (b64_mul (current_kA f) 1000))
      else Some f)"

section \<open>Protective components (protection\_system.h, protection\_system.cpp)\<close>

record OverCurrentProtection =
  pickup_current_kA :: real
  fixed_delay_ms :: int
  stage_name :: string

record DistanceProtection =
  z_set :: "real list"
  t_ms :: "int list"

text \<open>The two constructors; the fields are private, so every object is built by them.\<close>

definition new_OverCurrentProtection :: "real \<Rightarrow> int \<Rightarrow> string \<Rightarrow> OverCurrentProtection" where
  "new_OverCurrentProtection pickup delay_ms nm =
     \<lparr>pickup_current_kA = pickup, fixed_delay_ms = delay_ms, stage_name = nm\<rparr>"

definition new_DistanceProtection ::
  "real \<Rightarrow> int \<Rightarrow> real \<Rightarrow> int \<Rightarrow> real \<Rightarrow> int \<Rightarrow> DistanceProtection" where
  "new_DistanceProtection z1_ohm t1_ms z2_ohm t2_ms z3_ohm t3_ms =
     \<lparr>z_set = [z1_ohm, z2_ohm, z3_ohm], t_ms = [t1_ms, t2_ms, t3_ms]\<rparr>"

definition oc_pick_up :: "OverCurrentProtection \<Rightarrow> FaultInfo \<Rightarrow> Entity \<Rightarrow> bool" where
  "oc_pick_up p fault_data self_entity_id \<longleftrightarrow> current_kA fault_data \<ge> pickup_current_kA p"

definition oc_trip_delay_ms :: "OverCurrentProtection \<Rightarrow> FaultInfo \<Rightarrow> int" where
  "oc_trip_delay_ms p fault_data = fixed_delay_ms p"

definition dist_pick_up :: "DistanceProtection \<Rightarrow> FaultInfo \<Rightarrow> Entity \<Rightarrow> bool" where
  "dist_pick_up p fault_data self_entity_id =
     (if faulty_entity_id fault_data \<noteq> self_entity_id \<and> faulty_entity_id fault_data \<noteq> 0
      then impedance_Ohm fault_data \<le> z_set p ! 2
      else impedance_Ohm fault_data \<le> z_set p ! 0 \<or> impedance_Ohm fault_data \<le> z_set p ! 1
           \<or> impedance_Ohm fault_data \<le> z_set p ! 2)"

definition dist_trip_delay_ms :: "DistanceProtection \<Rightarrow> FaultInfo \<Rightarrow> int" where
  "dist_trip_delay_ms p fault_data =
     (if impedance_Ohm fault_data \<le> z_set p ! 0 then t_ms p ! 0
      else if impedance_Ohm fault_data \<le> z_set p ! 1 then t_ms p ! 1
      else if impedance_Ohm fault_data \<le> z_set p ! 2 then t_ms p ! 2
      else 99999)"

text \<open>
  \<open>ProtectiveComp\<close> is the abstract base class; its two subclasses are the cases of a
  datatype and the virtual calls dispatch on the case.
\<close>

datatype ProtectiveComp = OverCurrent OverCurrentProtection | Distance DistanceProtection

fun pick_up :: "ProtectiveComp \<Rightarrow> FaultInfo \<Rightarrow> Entity \<Rightarrow> bool" where
  "pick_up (OverCurrent p) fault_data self_entity_id = oc_pick_up p fault_data self_entity_id"
| "pick_up (Distance p) fault_data self_entity_id = dist_pick_up p fault_data self_entity_id"

fun trip_delay_ms :: "ProtectiveComp \<Rightarrow> FaultInfo \<Rightarrow> int" where
  "trip_delay_ms (OverCurrent p) fault_data = oc_trip_delay_ms p fault_data"
| "trip_delay_ms (Distance p) fault_data = dist_trip_delay_ms p fault_data"

fun name :: "ProtectiveComp \<Rightarrow> string" where
  "name (OverCurrent p) = stage_name p"
| "name (Distance p) = ''DIST''"

section \<open>Registry (ecs\_core.h)\<close>

record PhysicalStateComponent =
  current_power_kW :: real
  soc :: real

datatype DeviceType = EV_PILE | ESS_UNIT

record FrequencyControlConfigComponent =
  type :: DeviceType
  base_power_kW :: real
  gain_kW_per_Hz :: real
  deadband_Hz :: real
  max_output_kW :: real
  min_output_kW :: real
  soc_min_threshold :: real
  soc_max_threshold :: real

text \<open>
  The objects a registry owns. Every stored object is an instance of a concrete class:
  \<open>emplace<Comp>\<close> builds it with \<open>std::make_unique<Comp>\<close>, which cannot
  instantiate the abstract \<open>ProtectiveComp\<close>.
\<close>

datatype component =
    Protective ProtectiveComp
  | PhysicalState PhysicalStateComponent
  | FrequencyControlConfig FrequencyControlConfigComponent

text \<open>
  The outer key of \<open>components_\<close> is \<open>typeid(Comp).hash_code()\<close>. It is modelled by
  the class itself, one tag per class: the hash codes of distinct classes are taken to be
  distinct. The base class \<open>ProtectiveComp\<close> has a \<open>typeid\<close> of its own.
\<close>

datatype type_tag =
    ProtectiveComp_tag
  | OverCurrentProtection_tag
  | DistanceProtection_tag
  | PhysicalStateComponent_tag
  | FrequencyControlConfigComponent_tag

fun typeid_of :: "component \<Rightarrow> type_tag" where
  "typeid_of (Protective (OverCurrent p)) = OverCurrentProtection_tag"
| "typeid_of (Protective (Distance p)) = DistanceProtection_tag"
| "typeid_of (PhysicalState p) = PhysicalStateComponent_tag"
| "typeid_of (FrequencyControlConfig p) = FrequencyControlConfigComponent_tag"

text \<open>
  The inner \<open>unordered_map\<close> from entity to object is an association list with one
  entry per entity; its order stands for the (unspecified) iteration order of the map.
\<close>

record Registry =
  last_id :: Entity
  components :: "type_tag \<Rightarrow> (Entity \<times> component) list option"

definition Registry_init :: Registry where
  "Registry_init = \<lparr>last_id = 0, components = (\<lambda>t. None)\<rparr>"

definition create :: "Registry \<Rightarrow> Entity \<times> Registry" where
  "create r = (last_id r + 1, r\<lparr>last_id := last_id r + 1\<rparr>)"

definition entity_map :: "Registry \<Rightarrow> type_tag \<Rightarrow> (Entity \<times> component) list" where
  "entity_map r t = (case components r t of None \<Rightarrow> [] | Some m \<Rightarrow> m)"

text \<open>\<open>components_[tag][e] = ptr\<close>: both \<open>operator[]\<close> create a missing entry.\<close>

definition store :: "type_tag \<Rightarrow> Entity \<Rightarrow> component \<Rightarrow> Registry \<Rightarrow> Registry" where
  "store t e c r = r\<lparr>components := (components r)(t \<mapsto> AList.update e c (entity_map r t))\<rparr>"

definition emplace :: "Entity \<Rightarrow> component \<Rightarrow> Registry \<Rightarrow> Registry" where
  "emplace e c r = store (typeid_of c) e c r"

definition get :: "type_tag \<Rightarrow> Entity \<Rightarrow> Registry \<Rightarrow> component option" where
  "get t e r = (case components r t of None \<Rightarrow> None | Some m \<Rightarrow> map_of m e)"

text \<open>
  \<open>for_each<Comp>(fn)\<close>: the calls of \<open>fn\<close> act on a state \<open>'s\<close>, threaded through
  the loop in iteration order. Nothing is visited when no map is stored under the tag.
\<close>

definition for_each ::
  "type_tag \<Rightarrow> (component \<Rightarrow> Entity \<Rightarrow> 's \<Rightarrow> 's) \<Rightarrow> Registry \<Rightarrow> 's \<Rightarrow> 's" where
  "for_each t fn r st =
     (case components r t of
        None \<Rightarrow> st
      | Some m \<Rightarrow> fold (\<lambda>(entity, component_ptr). fn component_ptr entity) m st)"

text \<open>\<open>get<PhysicalStateComponent>\<close> and \<open>get<FrequencyControlConfigComponent>\<close>.\<close>

definition get_state :: "Registry \<Rightarrow> Entity \<Rightarrow> PhysicalStateComponent option" where
  "get_state r e =
     (case get PhysicalStateComponent_tag e r of Some (PhysicalState p) \<Rightarrow> Some p | _ \<Rightarrow> None)"

definition get_config :: "Registry \<Rightarrow> Entity \<Rightarrow> FrequencyControlConfigComponent option" where
  "get_config r e =
     (case get FrequencyControlConfigComponent_tag e r of
        Some (FrequencyControlConfig p) \<Rightarrow> Some p
      | _ \<Rightarrow> None)"

text \<open>A write through the pointer that \<open>get<PhysicalStateComponent>\<close> returned.\<close>

definition put_state :: "Entity \<Rightarrow> PhysicalStateComponent \<Rightarrow> Registry \<Rightarrow> Registry" where
  "put_state e p r = store PhysicalStateComponent_tag e (PhysicalState p) r"

section \<open>Protection engine (protection\_system.cpp)\<close>

text \<open>
  The arguments of one call of \<open>trip_later\<close>: a sub-task that \<open>run\<close> has spawned and
  detached.
\<close>

record trip_task =
  protected_entity_id :: Entity
  delay_ms :: int
  protection_name :: string
  actual_faulty_entity_id :: Entity

text \<open>
  The lambda that \<open>run\<close> passes to \<open>for_each<ProtectiveComp>\<close>; its state is the list
  of sub-tasks spawned so far. The lambda takes a \<open>ProtectiveComp&\<close>; an object of
  another class cannot be stored under a protective tag, and is passed over here.
\<close>

definition on_fault_visit ::
  "FaultInfo \<Rightarrow> component \<Rightarrow> Entity \<Rightarrow> trip_task list \<Rightarrow> trip_task list" where
  "on_fault_visit fault_data c entity_id spawned =
     (case c of
        Protective prot \<Rightarrow>
          (if pick_up prot fault_data entity_id
           then spawned @
             [\<lparr>protected_entity_id = entity_id,
               delay_ms = trip_delay_ms prot fault_data,
               protection_name = name prot,
               actual_faulty_entity_id = faulty_entity_id fault_data\<rparr>]
           else spawned)
      | _ \<Rightarrow> spawned)"

text \<open>
  One round of the loop of \<open>ProtectionSystem::run\<close>, from the resumption with the
  injected fault to the next \<open>co_await\<close>: the sub-tasks it spawns. The round is outside
  the model (\<open>None\<close>) when the impedance derived for the fault is not a finite number.
\<close>

definition run_on_fault :: "Registry \<Rightarrow> FaultInfo \<Rightarrow> trip_task list option" where
  "run_on_fault registry fault =
     (case calculate_impedance_if_needed fault of
        None \<Rightarrow> None
      | Some fault_data \<Rightarrow>
          Some (for_each ProtectiveComp_tag (on_fault_visit fault_data) registry []))"

text \<open>The registry that \<open>main\<close> builds for the protection system, and its first fault.\<close>

definition main_registry :: Registry where
  "main_registry =
     (let (line1_prot, r1) = create Registry_init;
          r2 = emplace line1_prot
                 (Protective (OverCurrent (new_OverCurrentProtection 5 200 ''OC-L1P-Fast''))) r1;
          r3 = emplace line1_prot
                 (Protective (Distance (new_DistanceProtection 5 0 15 300 25 700))) r2;
          (transformer1_prot, r4) = create r3
      in emplace transformer1_prot
           (Protective (OverCurrent (new_OverCurrentProtection (5 / 2) 300 ''OC-T1P-Main''))) r4)"

definition fault1 :: FaultInfo where
  "fault1 =
     \<lparr>current_kA = 15, voltage_kV = 220, impedance_Ohm = (220 / 15) * (8 / 10),
      distance_km = 10, faulty_entity_id = 1\<rparr>"

section \<open>VPP frequency response (frequency\_system.cpp)\<close>

text \<open>The three locals of \<open>vppFrequencyResponseTask\<close> that live across events.\<close>

record VppState =
  last_processed_event_time_s :: real
  vpp_instance_last_full_update_time_s :: real
  vpp_instance_last_full_update_freq_dev_hz :: real

definition VppState_init :: VppState where
  "VppState_init =
     \<lparr>last_processed_event_time_s = - 1,
      vpp_instance_last_full_update_time_s = - 1,
      vpp_instance_last_full_update_freq_dev_hz = 0\<rparr>"

definition FREQUENCY_CHANGE_THRESHOLD_HZ :: real where
  "FREQUENCY_CHANGE_THRESHOLD_HZ = 1 / 100"

definition TIME_THRESHOLD_SECONDS :: real where
  "TIME_THRESHOLD_SECONDS = 1"

text \<open>SOC integration over the interval since the last full update.\<close>

definition integrate_soc ::
  "FrequencyControlConfigComponent \<Rightarrow> real \<Rightarrow> PhysicalStateComponent \<Rightarrow> PhysicalStateComponent" where
  "integrate_soc config dt_since_last_full_update state =
     (let power_during_last_interval = current_power_kW state;
          energy_change_kWh = power_during_last_interval * (dt_since_last_full_update / 3600);
          soc1 =
            (case type config of
               EV_PILE \<Rightarrow>
                 (let typical_battery_capacity_kWh = (50 :: real)
                  in if typical_battery_capacity_kWh > 0
                     then soc state - energy_change_kWh / typical_battery_capacity_kWh
                     else soc state)
             | ESS_UNIT \<Rightarrow>
                 (let typical_ess_capacity_kWh = (2000 :: real)
                  in if typical_ess_capacity_kWh > 0
                     then soc state - energy_change_kWh / typical_ess_capacity_kWh
                     else soc state))
      in state\<lparr>soc := max 0 (min 1 soc1)\<rparr>)"

text \<open>The power computed from the frequency deviation, before the limits.\<close>

definition frequency_response ::
  "FrequencyControlConfigComponent \<Rightarrow> PhysicalStateComponent \<Rightarrow> real \<Rightarrow> real" where
  "frequency_response config state current_actual_freq_dev =
     (if \<bar>current_actual_freq_dev\<bar> > deadband_Hz config
      then
        (if current_actual_freq_dev < 0
         then
           (let effective_df_drop = current_actual_freq_dev + deadband_Hz config
            in case type config of
                 EV_PILE \<Rightarrow>
                   (if soc state \<ge> soc_min_threshold config
                    then - gain_kW_per_Hz config * effective_df_drop
                    else if base_power_kW config < 0 then 0
                    else base_power_kW config)
               | ESS_UNIT \<Rightarrow> - gain_kW_per_Hz config * effective_df_drop)
         else
           (let effective_df_rise = current_actual_freq_dev - deadband_Hz config;
                power_change_due_to_freq = - gain_kW_per_Hz config * effective_df_rise
            in base_power_kW config + power_change_due_to_freq))
      else base_power_kW config)"

definition limit_output :: "FrequencyControlConfigComponent \<Rightarrow> real \<Rightarrow> real" where
  "limit_output config p = max (min_output_kW config) (min (max_output_kW config) p)"

text \<open>The two guards run one after the other on the same variable.\<close>

definition ev_soc_guard ::
  "FrequencyControlConfigComponent \<Rightarrow> PhysicalStateComponent \<Rightarrow> real \<Rightarrow> real" where
  "ev_soc_guard config state p =
     (if type config = EV_PILE
      then
        (let p1 = (if p < 0 \<and> soc state \<ge> soc_max_threshold config then 0 else p)
         in if p1 > 0 \<and> soc state \<le> soc_min_threshold config then 0 else p1)
      else p)"

text \<open>The body of the loop over the managed entities, for a device that has both components.\<close>

definition update_device ::
  "real \<Rightarrow> real \<Rightarrow> real \<Rightarrow> FrequencyControlConfigComponent \<Rightarrow> PhysicalStateComponent
     \<Rightarrow> PhysicalStateComponent" where
  "update_device last_full_update_time_s dt_since_last_full_update freq_dev config state =
     (let state1 =
            (if last_full_update_time_s \<ge> 0 \<and> dt_since_last_full_update > 1 / 1000000
             then integrate_soc config dt_since_last_full_update state
             else state);
          new_calculated_power_kW =
            ev_soc_guard config state1
              (limit_output config (frequency_response config state1 freq_dev))
      in state1\<lparr>current_power_kW := new_calculated_power_kW\<rparr>)"

definition update_entity :: "real \<Rightarrow> real \<Rightarrow> real \<Rightarrow> Entity \<Rightarrow> Registry \<Rightarrow> Registry" where
  "update_entity last_full_update_time_s dt_since_last_full_update freq_dev entity_id registry =
     (case get_config registry entity_id of
        None \<Rightarrow> registry
      | Some config \<Rightarrow>
          (case get_state registry entity_id of
             None \<Rightarrow> registry
           | Some state \<Rightarrow>
               put_state entity_id
                 (update_device last_full_update_time_s dt_since_last_full_update freq_dev
                    config state)
                 registry))"

text \<open>
  The gate: whether a full update runs, and \<open>dt_since_last_full_update\<close>.
\<close>

definition gating :: "VppState \<Rightarrow> FrequencyInfo \<Rightarrow> bool \<times> real" where
  "gating vpp info =
     (if vpp_instance_last_full_update_time_s vpp < 0 then (True, 0)
      else
        (let dt0 = current_sim_time_seconds info - vpp_instance_last_full_update_time_s vpp;
             dt_since_last_full_update = (if dt0 < 0 then 0 else dt0);
             freq_diff_abs =
               \<bar>freq_deviation_hz info - vpp_instance_last_full_update_freq_dev_hz vpp\<bar>
         in (freq_diff_abs > FREQUENCY_CHANGE_THRESHOLD_HZ
               \<or> dt_since_last_full_update \<ge> TIME_THRESHOLD_SECONDS,
             dt_since_last_full_update)))"

text \<open>
  One round of the loop of \<open>vppFrequencyResponseTask\<close>, for one delivered event. The
  result says whether a full update ran, and gives the locals and the registry after it.
\<close>

definition vpp_on_event ::
  "Entity list \<Rightarrow> FrequencyInfo \<Rightarrow> VppState \<times> Registry \<Rightarrow> bool \<times> VppState \<times> Registry" where
  "vpp_on_event managed_entities info st =
     (let vpp = fst st; registry = snd st
      in if current_sim_time_seconds info \<le> last_processed_event_time_s vpp
         then (False, vpp, registry)
         else
           (let vpp1 = vpp\<lparr>last_processed_event_time_s := current_sim_time_seconds info\<rparr>;
                perform_full_update = fst (gating vpp1 info);
                dt_since_last_full_update = snd (gating vpp1 info)
            in if perform_full_update
               then
                 (True,
                  vpp1\<lparr>vpp_instance_last_full_update_time_s := current_sim_time_seconds info,
                       vpp_instance_last_full_update_freq_dev_hz := freq_deviation_hz info\<rparr>,
                  fold (update_entity (vpp_instance_last_full_update_time_s vpp1)
                          dt_since_last_full_update (freq_deviation_hz info))
                    managed_entities registry)
               else (False, vpp1, registry)))"

text \<open>The number of full updates that two deliveries of the same event cause.\<close>

definition full_updates_of_two_deliveries ::
  "Entity list \<Rightarrow> FrequencyInfo \<Rightarrow> VppState \<times> Registry \<Rightarrow> nat" where
  "full_updates_of_two_deliveries managed_entities info st =
     (let first = vpp_on_event managed_entities info st;
          second = vpp_on_event managed_entities info (snd first)
      in (if fst first then 1 else 0) + (if fst second then 1 else 0))"

section \<open>Task (cps\_coro\_lib.h)\<close>

text \<open>
  A coroutine handle is the address of a coroutine frame. The store of frames gives, for
  every live frame, whether the coroutine is suspended at its final suspension point
  (\<open>handle.done()\<close>); a destroyed frame has no entry. Calling \<open>done\<close> or
  \<open>destroy\<close> through a handle whose frame is gone is undefined behaviour: the result
  \<open>None\<close>.
\<close>

type_synonym coroutine_handle = nat

type_synonym frames = "coroutine_handle \<Rightarrow> bool option"

text \<open>The only member of a \<open>Task\<close>, \<open>handle_\<close>; \<open>None\<close> is \<open>nullptr\<close>.\<close>

record Task =
  handle :: "coroutine_handle option"

definition detach :: "Task \<Rightarrow> frames \<Rightarrow> Task \<times> frames" where
  "detach t fr = (t\<lparr>handle := None\<rparr>, fr)"

definition is_done :: "Task \<Rightarrow> frames \<Rightarrow> bool option" where
  "is_done t fr = (case handle t of None \<Rightarrow> Some True | Some h \<Rightarrow> fr h)"

text \<open>The destructor \<open>~Task\<close>: the store of frames after it.\<close>

definition Task_destructor :: "Task \<Rightarrow> frames \<Rightarrow> frames option" where
  "Task_destructor t fr =
     (case handle t of
        None \<Rightarrow> Some fr
      | Some h \<Rightarrow>
          (case fr h of
             None \<Rightarrow> None
           | Some finished \<Rightarrow> if \<not> finished then Some (fr(h := None)) else Some fr))"

section \<open>Scheduler (cps\_coro\_lib.h)\<close>

text \<open>
  A \<open>time_point\<close> and a \<open>duration\<close> are counts of milliseconds, modelled by \<open>int\<close>:
  the count of \<open>std::chrono::milliseconds\<close> is a signed integer whose overflow is
  undefined behaviour, and no run considered here overflows it.

  The two multimaps are lists sorted by key, entries of equal key in insertion order.
  An event handler is a value of a type \<open>'h\<close>; what calling it does is given by a
  function \<open>invoke\<close> on the whole state. The state is the scheduler record together with
  its extension \<open>'w\<close>, which stands for everything else a handler or a resumed coroutine
  can reach (coroutine frames, the registry). What resuming a coroutine does, and
  whether it is done, are the functions \<open>h_resume\<close> and \<open>h_done\<close>.
\<close>

record 'h Scheduler =
  current_time :: int
  ready_tasks :: "coroutine_handle list"
  timed_tasks :: "(int \<times> coroutine_handle) list"
  event_handlers :: "(EventId \<times> 'h) list"

text \<open>
  The fields are the members \<open>current_time_\<close>, \<open>ready_tasks_\<close>, \<open>timed_tasks_\<close>
  and \<open>event_handlers_\<close>. The constructor:
\<close>

definition Scheduler_init :: "'h Scheduler" where
  "Scheduler_init =
     \<lparr>current_time = 0, ready_tasks = [], timed_tasks = [], event_handlers = []\<rparr>"

text \<open>\<open>std::multimap::emplace\<close>: the new entry goes after the entries of equal key.\<close>

fun mm_emplace :: "'k::linorder \<Rightarrow> 'v \<Rightarrow> ('k \<times> 'v) list \<Rightarrow> ('k \<times> 'v) list" where
  "mm_emplace k v [] = [(k, v)]"
| "mm_emplace k v ((k', v') # xs) =
     (if k' \<le> k then (k', v') # mm_emplace k v xs else (k, v) # (k', v') # xs)"


definition set_time :: "int \<Rightarrow> ('h, 'w) Scheduler_scheme \<Rightarrow> ('h, 'w) Scheduler_scheme" where
  "set_time new_time s = s\<lparr>current_time := new_time\<rparr>"

definition advance_time :: "int \<Rightarrow> ('h, 'w) Scheduler_scheme \<Rightarrow> ('h, 'w) Scheduler_scheme" where
  "advance_time delta s = s\<lparr>current_time := current_time s + delta\<rparr>"

definition schedule ::
  "coroutine_handle \<Rightarrow> ('h, 'w) Scheduler_scheme \<Rightarrow> ('h, 'w) Scheduler_scheme" where
  "schedule h s = s\<lparr>ready_tasks := ready_tasks s @ [h]\<rparr>"

definition schedule_after ::
  "int \<Rightarrow> coroutine_handle \<Rightarrow> ('h, 'w) Scheduler_scheme \<Rightarrow> ('h, 'w) Scheduler_scheme" where
  "schedule_after delay h s =
     s\<lparr>timed_tasks := mm_emplace (current_time s + delay) h (timed_tasks s)\<rparr>"

definition register_event_handler ::
  "EventId \<Rightarrow> 'h \<Rightarrow> ('h, 'w) Scheduler_scheme \<Rightarrow> ('h, 'w) Scheduler_scheme" where
  "register_event_handler event_id handler s =
     s\<lparr>event_handlers := mm_emplace event_id handler (event_handlers s)\<rparr>"

text \<open>
  The last loop of \<open>trigger_event\<close>: the handlers of the snapshot are called in order,
  each on the state the one before left. The result lists the handlers called.
\<close>

fun call_handlers ::
  "('h \<Rightarrow> 'd option \<Rightarrow> 's \<Rightarrow> 's) \<Rightarrow> 'd option \<Rightarrow> 'h list \<Rightarrow> 'h list \<Rightarrow> 's \<Rightarrow> 'h list \<times> 's" where
  "call_handlers invoke d [] called s = (called, s)"
| "call_handlers invoke d (handler_func # rest) called s =
     call_handlers invoke d rest (called @ [handler_func]) (invoke handler_func d s)"

text \<open>
  \<open>trigger_event(event_id, data)\<close>: the handlers it has called, and the state after.
  The handlers receive the pointer \<open>&data\<close>, which is not null: \<open>Some data\<close>.
\<close>

definition trigger_event ::
  "('h \<Rightarrow> 'd option \<Rightarrow> ('h, 'w) Scheduler_scheme \<Rightarrow> ('h, 'w) Scheduler_scheme) \<Rightarrow> EventId \<Rightarrow> 'd
     \<Rightarrow> ('h, 'w) Scheduler_scheme \<Rightarrow> 'h list \<times> ('h, 'w) Scheduler_scheme" where
  "trigger_event invoke event_id data s =
     (let range = filter (\<lambda>(k, h). k = event_id) (event_handlers s);
          handlers_to_call = map snd range;
          s1 = (if range \<noteq> []
                then s\<lparr>event_handlers := filter (\<lambda>(k, h). k \<noteq> event_id) (event_handlers s)\<rparr>
                else s)
      in call_handlers invoke (Some data) handlers_to_call [] s1)"

text \<open>
  The loop of \<open>run_one_step\<close> that moves the due timers to the ready queue; its
  variables are the current time, the timer list and the ready queue.
\<close>

fun migrate_due ::
  "int \<Rightarrow> (int \<times> coroutine_handle) list \<Rightarrow> coroutine_handle list
     \<Rightarrow> (int \<times> coroutine_handle) list \<times> coroutine_handle list" where
  "migrate_due t [] ready = ([], ready)"
| "migrate_due t ((k, h) # timers) ready =
     (if k \<le> t then migrate_due t timers (ready @ [h]) else ((k, h) # timers, ready))"

definition run_one_step ::
  "(coroutine_handle \<Rightarrow> ('h, 'w) Scheduler_scheme \<Rightarrow> bool)
     \<Rightarrow> (coroutine_handle \<Rightarrow> ('h, 'w) Scheduler_scheme \<Rightarrow> ('h, 'w) Scheduler_scheme)
     \<Rightarrow> ('h, 'w) Scheduler_scheme \<Rightarrow> bool \<times> ('h, 'w) Scheduler_scheme" where
  "run_one_step h_done h_resume s =
     (case ready_tasks s of
        h # rest \<Rightarrow>
          (let s1 = s\<lparr>ready_tasks := rest\<rparr>
           in (True, if \<not> h_done h s1 then h_resume h s1 else s1))
      | [] \<Rightarrow>
          (case timed_tasks s of
             (k, h) # timers \<Rightarrow>
               (let s1 = set_time k s;
                    moved = migrate_due (current_time s1) (timed_tasks s1) (ready_tasks s1)
                in (True, s1\<lparr>timed_tasks := fst moved, ready_tasks := snd moved\<rparr>))
           | [] \<Rightarrow> (False, s)))"

text \<open>
  What \<open>co_await delay(d)\<close> in the coroutine \<open>h\<close> does to the scheduler:
  \<open>await_ready\<close> is true for \<open>d \<le> 0\<close> and the coroutine goes on; otherwise
  \<open>await_suspend\<close> calls \<open>schedule_after\<close>.
\<close>

definition co_await_delay ::
  "int \<Rightarrow> coroutine_handle \<Rightarrow> ('h, 'w) Scheduler_scheme \<Rightarrow> ('h, 'w) Scheduler_scheme" where
  "co_await_delay delay_time h s = (if delay_time \<le> 0 then s else schedule_after delay_time h s)"




text \<open>
  The timer multimap is ordered by key, as every \<open>std::multimap\<close> is, and every
  pending timer has a deadline that is not before the current time.
\<close>

definition timers_not_before_now :: "('h, 'w) Scheduler_scheme \<Rightarrow> bool" where
  "timers_not_before_now s \<longleftrightarrow>
     sorted (map fst (timed_tasks s)) \<and> list_all (\<lambda>(k, h). current_time s \<le> k) (timed_tasks s)"

text \<open>
  A resumed coroutine or a called handler respects the time discipline when it leaves
  the current time as it is (it calls neither \<open>set_time\<close> nor \<open>advance_time\<close>) and
  leaves no timer pending before the current time (it schedules timers with delays that
  are not negative).
\<close>

definition respects_time ::
  "(('h, 'w) Scheduler_scheme \<Rightarrow> ('h, 'w) Scheduler_scheme) \<Rightarrow> bool" where
  "respects_time f \<longleftrightarrow>
     (\<forall>s. timers_not_before_now s \<longrightarrow>
        timers_not_before_now (f s) \<and> current_time (f s) = current_time s)"


section \<open>Subscriptions as nodes of the multimap (cps\_coro\_lib.h)\<close>

text \<open>
  \<open>register_event_handler\<close> emplaces a new node into \<open>event_handlers_\<close> at every call,
  also when a closure that has been registered before is registered again, and
  \<open>trigger_event\<close> erases the nodes it has copied. To tell the nodes apart, the
  handler stored here is a pair: the number of the node, which is the count of the
  registrations made before it, and the closure. No function of the scheduler reads
  the number. The fields \<open>steps_left\<close> and \<open>out_of_fuel\<close> belong to the evaluation of
  the calling code below.
\<close>

record 'g Node_scheduler = "(nat \<times> 'g) Scheduler" +
  next_node :: nat
  steps_left :: nat
  out_of_fuel :: bool

text \<open>
  A new scheduler. The extension \<open>w\<close> of the record is the state of the program outside
  the scheduler: whatever else handlers and coroutines read and write.
\<close>

definition Node_scheduler_init :: "'w \<Rightarrow> ('g, 'w) Node_scheduler_scheme" where
  "Node_scheduler_init w =
     \<lparr>current_time = 0, ready_tasks = [], timed_tasks = [], event_handlers = [],
      next_node = 0, steps_left = 0, out_of_fuel = False, \<dots> = w\<rparr>"

text \<open>\<open>register_event_handler\<close>, the new node numbered.\<close>

definition subscribe ::
  "EventId \<Rightarrow> 'g \<Rightarrow> ('g, 'w) Node_scheduler_scheme \<Rightarrow> ('g, 'w) Node_scheduler_scheme" where
  "subscribe event_id g s =
     register_event_handler event_id (next_node s, g) (s\<lparr>next_node := Suc (next_node s)\<rparr>)"

text \<open>
  The overload \<open>trigger_event(event_id)\<close>: the handlers receive \<open>nullptr\<close>.
\<close>

definition trigger_event_no_data ::
  "('h \<Rightarrow> 'd option \<Rightarrow> ('h, 'w) Scheduler_scheme \<Rightarrow> ('h, 'w) Scheduler_scheme) \<Rightarrow> EventId
     \<Rightarrow> ('h, 'w) Scheduler_scheme \<Rightarrow> 'h list \<times> ('h, 'w) Scheduler_scheme" where
  "trigger_event_no_data invoke event_id s =
     (let range = filter (\<lambda>(k, h). k = event_id) (event_handlers s);
          handlers_to_call = map snd range;
          s1 = (if range \<noteq> []
                then s\<lparr>event_handlers := filter (\<lambda>(k, h). k \<noteq> event_id) (event_handlers s)\<rparr>
                else s)
      in call_handlers invoke None handlers_to_call [] s1)"

text \<open>
  \<open>event_handlers_\<close> is a private member: the code of a handler or of a coroutine, like
  any code outside the class, reaches it only through the public member functions. So
  what such code does is a sequence of calls of these functions and of steps that
  change the state outside the scheduler, each chosen from what the code has seen so
  far. (\<open>now\<close> and \<open>is_empty\<close> only read; what \<open>run_until\<close> does at each iteration
  is what \<open>run_one_step\<close> or \<open>set_time\<close> does.)
\<close>

datatype ('g, 'd, 'w) action =
    Call_register_event_handler EventId 'g
  | Call_trigger_event EventId 'd
  | Call_trigger_event_no_data EventId
  | Call_schedule coroutine_handle
  | Call_schedule_after int coroutine_handle
  | Call_set_time int
  | Call_advance_time int
  | Call_run_one_step
  | Elsewhere "'w \<Rightarrow> 'w"

datatype ('a, 's) prog = Return | Do 'a "'s \<Rightarrow> ('a, 's) prog"

primrec run_prog :: "('a \<Rightarrow> 's \<Rightarrow> 's) \<Rightarrow> ('a, 's) prog \<Rightarrow> 's \<Rightarrow> 's" where
  "run_prog act Return s = s"
| "run_prog act (Do a k) s = run_prog act (k (act a s)) (act a s)"

text \<open>
  One action, given what calling a handler and resuming a coroutine do.
\<close>

fun do_action ::
  "(nat \<times> 'g \<Rightarrow> 'd option \<Rightarrow> ('g, 'w) Node_scheduler_scheme \<Rightarrow> ('g, 'w) Node_scheduler_scheme)
     \<Rightarrow> (coroutine_handle \<Rightarrow> ('g, 'w) Node_scheduler_scheme \<Rightarrow> ('g, 'w) Node_scheduler_scheme)
     \<Rightarrow> (coroutine_handle \<Rightarrow> ('g, 'w) Node_scheduler_scheme \<Rightarrow> bool)
     \<Rightarrow> ('g, 'd, 'w) action \<Rightarrow> ('g, 'w) Node_scheduler_scheme \<Rightarrow> ('g, 'w) Node_scheduler_scheme" where
  "do_action invoke h_resume h_done (Call_register_event_handler event_id g) s =
     subscribe event_id g s"
| "do_action invoke h_resume h_done (Call_trigger_event event_id data) s =
     snd (trigger_event invoke event_id data s)"
| "do_action invoke h_resume h_done (Call_trigger_event_no_data event_id) s =
     snd (trigger_event_no_data invoke event_id s)"
| "do_action invoke h_resume h_done (Call_schedule h) s = schedule h s"
| "do_action invoke h_resume h_done (Call_schedule_after delay h) s = schedule_after delay h s"
| "do_action invoke h_resume h_done (Call_set_time t) s = set_time t s"
| "do_action invoke h_resume h_done (Call_advance_time delta) s = advance_time delta s"
| "do_action invoke h_resume h_done Call_run_one_step s = snd (run_one_step h_done h_resume s)"
| "do_action invoke h_resume h_done (Elsewhere f) s = Node_scheduler.more_update f s"

text \<open>
  The actions are counted: an action is done while \<open>steps_left\<close> is not 0, and is not
  done any more when it is 0. So a run with \<open>k\<close> steps left stops after the first \<open>k\<close>
  actions of the code, of the handlers and coroutines it calls included, and its result
  is the state at that point, which may be in the middle of \<open>run_one_step\<close> or of
  \<open>trigger_event\<close>.
\<close>

definition counted_action ::
  "(nat \<times> 'g \<Rightarrow> 'd option \<Rightarrow> ('g, 'w) Node_scheduler_scheme \<Rightarrow> ('g, 'w) Node_scheduler_scheme)
     \<Rightarrow> (coroutine_handle \<Rightarrow> ('g, 'w) Node_scheduler_scheme \<Rightarrow> ('g, 'w) Node_scheduler_scheme)
     \<Rightarrow> (coroutine_handle \<Rightarrow> ('g, 'w) Node_scheduler_scheme \<Rightarrow> bool)
     \<Rightarrow> ('g, 'd, 'w) action \<Rightarrow> ('g, 'w) Node_scheduler_scheme \<Rightarrow> ('g, 'w) Node_scheduler_scheme" where
  "counted_action invoke h_resume h_done a s =
     (if steps_left s = 0 then s
      else do_action invoke h_resume h_done a (s\<lparr>steps_left := steps_left s - 1\<rparr>))"

text \<open>
  The code \<open>p\<close> run on the state \<open>s\<close>, where \<open>hb g d\<close> is the body of the closure \<open>g\<close>
  called with the data \<open>d\<close>, \<open>tb c\<close> is what the coroutine \<open>c\<close> does when resumed, up to
  its next suspension, and \<open>td c\<close> tells whether it is then done. A handler can trigger
  an event and so call handlers that trigger events in turn; \<open>n\<close> bounds the depth of
  such calls: a call beyond it is not made and sets \<open>out_of_fuel\<close>.
\<close>

primrec nested ::
  "nat
     \<Rightarrow> ('g \<Rightarrow> 'd option \<Rightarrow> (('g, 'd, 'w) action, ('g, 'w) Node_scheduler_scheme) prog)
     \<Rightarrow> (coroutine_handle \<Rightarrow> (('g, 'd, 'w) action, ('g, 'w) Node_scheduler_scheme) prog)
     \<Rightarrow> (coroutine_handle \<Rightarrow> ('g, 'w) Node_scheduler_scheme \<Rightarrow> bool)
     \<Rightarrow> (('g, 'd, 'w) action, ('g, 'w) Node_scheduler_scheme) prog
     \<Rightarrow> ('g, 'w) Node_scheduler_scheme \<Rightarrow> ('g, 'w) Node_scheduler_scheme" where
  "nested 0 hb tb td p s = s\<lparr>out_of_fuel := True\<rparr>"
| "nested (Suc n) hb tb td p s =
     run_prog
       (counted_action (\<lambda>h d. nested n hb tb td (hb (snd h) d))
          (\<lambda>c. nested n hb tb td (tb c)) td)
       p s"

text \<open>Calling the handler of a node, and resuming a coroutine.\<close>

definition handler_call ::
  "nat
     \<Rightarrow> ('g \<Rightarrow> 'd option \<Rightarrow> (('g, 'd, 'w) action, ('g, 'w) Node_scheduler_scheme) prog)
     \<Rightarrow> (coroutine_handle \<Rightarrow> (('g, 'd, 'w) action, ('g, 'w) Node_scheduler_scheme) prog)
     \<Rightarrow> (coroutine_handle \<Rightarrow> ('g, 'w) Node_scheduler_scheme \<Rightarrow> bool)
     \<Rightarrow> nat \<times> 'g \<Rightarrow> 'd option
     \<Rightarrow> ('g, 'w) Node_scheduler_scheme \<Rightarrow> ('g, 'w) Node_scheduler_scheme" where
  "handler_call n hb tb td h d = nested n hb tb td (hb (snd h) d)"

definition task_resume ::
  "nat
     \<Rightarrow> ('g \<Rightarrow> 'd option \<Rightarrow> (('g, 'd, 'w) action, ('g, 'w) Node_scheduler_scheme) prog)
     \<Rightarrow> (coroutine_handle \<Rightarrow> (('g, 'd, 'w) action, ('g, 'w) Node_scheduler_scheme) prog)
     \<Rightarrow> (coroutine_handle \<Rightarrow> ('g, 'w) Node_scheduler_scheme \<Rightarrow> bool)
     \<Rightarrow> coroutine_handle
     \<Rightarrow> ('g, 'w) Node_scheduler_scheme \<Rightarrow> ('g, 'w) Node_scheduler_scheme" where
  "task_resume n hb tb td c = nested n hb tb td (tb c)"

text \<open>
  The state of a scheduler, constructed and then used by the code \<open>p\<close>, after the
  first \<open>k\<close> actions: any state in which calls from outside the class can find the
  scheduler. What follows has \<open>j\<close> steps left.
\<close>

definition after_calls ::
  "nat \<Rightarrow> nat \<Rightarrow> nat
     \<Rightarrow> ('g \<Rightarrow> 'd option \<Rightarrow> (('g, 'd, 'w) action, ('g, 'w) Node_scheduler_scheme) prog)
     \<Rightarrow> (coroutine_handle \<Rightarrow> (('g, 'd, 'w) action, ('g, 'w) Node_scheduler_scheme) prog)
     \<Rightarrow> (coroutine_handle \<Rightarrow> ('g, 'w) Node_scheduler_scheme \<Rightarrow> bool)
     \<Rightarrow> 'w
     \<Rightarrow> (('g, 'd, 'w) action, ('g, 'w) Node_scheduler_scheme) prog
     \<Rightarrow> ('g, 'w) Node_scheduler_scheme" where
  "after_calls k j n hb tb td w p =
     (run_prog (counted_action (handler_call n hb tb td) (task_resume n hb tb td) td) p
        ((Node_scheduler_init w)\<lparr>steps_left := k\<rparr>))
     \<lparr>steps_left := j\<rparr>"

text \<open>
  The numbering of the nodes: every node of the multimap has a number below
  \<open>next_node\<close>. A function on schedulers adds only new nodes when it keeps the
  numbering, does not lower \<open>next_node\<close>, and every node it leaves in the multimap
  was there before or has a number that was not yet given when it started.
\<close>

definition nodes_numbered :: "('g, 'w) Node_scheduler_scheme \<Rightarrow> bool" where
  "nodes_numbered s \<longleftrightarrow> list_all (\<lambda>x. fst (snd x) < next_node s) (event_handlers s)"

definition adds_only_new ::
  "(('g, 'w) Node_scheduler_scheme \<Rightarrow> ('g, 'w) Node_scheduler_scheme) \<Rightarrow> bool" where
  "adds_only_new f \<longleftrightarrow>
     (\<forall>s. nodes_numbered s \<longrightarrow>
        nodes_numbered (f s) \<and> next_node s \<le> next_node (f s) \<and>
        (\<forall>x \<in> set (event_handlers (f s)).
           x \<in> set (event_handlers s) \<or> next_node s \<le> fst (snd x)))"

section \<open>Example objects\<close>

text \<open>
  The registries that the constructor, \<open>create\<close> and \<open>emplace\<close> can build.
\<close>

inductive built :: "Registry \<Rightarrow> bool" where
  built_init: "built Registry_init"
| built_create: "built r \<Longrightarrow> built (snd (create r))"
| built_emplace: "built r \<Longrightarrow> built (emplace e c r)"

text \<open>The two device configurations of \<open>main\<close>.\<close>

definition main_ess :: FrequencyControlConfigComponent where
  "main_ess =
     \<lparr>type = ESS_UNIT, base_power_kW = 0, gain_kW_per_Hz = 1000 / (3 / 100 * 50),
      deadband_Hz = 3 / 100, max_output_kW = 1000, min_output_kW = - 1000,
      soc_min_threshold = 5 / 100, soc_max_threshold = 95 / 100\<rparr>"

definition main_ev :: FrequencyControlConfigComponent where
  "main_ev =
     \<lparr>type = EV_PILE, base_power_kW = - 5, gain_kW_per_Hz = 4,
      deadband_Hz = 3 / 100, max_output_kW = 5, min_output_kW = - 5,
      soc_min_threshold = 1 / 10, soc_max_threshold = 95 / 100\<rparr>"

text \<open>
  A pile that can only charge (its output range lies below 0) with a full battery, and a
  storage unit whose limits are crossed.
\<close>

definition charging_only_pile :: FrequencyControlConfigComponent where
  "charging_only_pile =
     \<lparr>type = EV_PILE, base_power_kW = - 3, gain_kW_per_Hz = 4, deadband_Hz = 3 / 100,
      max_output_kW = - 1, min_output_kW = - 5, soc_min_threshold = 1 / 10,
      soc_max_threshold = 95 / 100\<rparr>"

definition full_battery :: PhysicalStateComponent where
  "full_battery = \<lparr>current_power_kW = - 3, soc = 97 / 100\<rparr>"

definition crossed_limits_ess :: FrequencyControlConfigComponent where
  "crossed_limits_ess =
     \<lparr>type = ESS_UNIT, base_power_kW = 0, gain_kW_per_Hz = 100, deadband_Hz = 3 / 100,
      max_output_kW = - 10, min_output_kW = 10, soc_min_threshold = 5 / 100,
      soc_max_threshold = 95 / 100\<rparr>"

text \<open>
  A registry with one storage unit, the controller state after a first full update at
  1 s, and a later sample that differs little from it.
\<close>

definition one_ess_registry :: Registry where
  "one_ess_registry =
     (let (ess, r1) = create Registry_init;
          r2 = emplace ess (FrequencyControlConfig main_ess) r1
      in emplace ess (PhysicalState \<lparr>current_power_kW = 0, soc = 7 / 10\<rparr>) r2)"

definition after_first_update :: "VppState \<times> Registry" where
  "after_first_update =
     snd (vpp_on_event [1] \<lparr>current_sim_time_seconds = 1, freq_deviation_hz = 0\<rparr>
            (VppState_init, one_ess_registry))"

definition small_change :: FrequencyInfo where
  "small_change = \<lparr>current_sim_time_seconds = 3 / 2, freq_deviation_hz = 5 / 1000\<rparr>"

text \<open>
  Closures that, when called, register themselves again for event 7: the same value
  in a new node. There are no coroutines. The code registers the closures 1 and 2 for
  event 7 and the closure 3 for event 8, and then may trigger event 7.
\<close>

definition resubscribing ::
  "nat \<Rightarrow> nat option \<Rightarrow> ((nat, nat, unit) action, nat Node_scheduler) prog" where
  "resubscribing g d = Do (Call_register_event_handler 7 g) (\<lambda>s. Return)"

definition no_task ::
  "coroutine_handle \<Rightarrow> ((nat, nat, unit) action, nat Node_scheduler) prog" where
  "no_task c = Return"

definition no_task_done :: "coroutine_handle \<Rightarrow> nat Node_scheduler \<Rightarrow> bool" where
  "no_task_done c s = False"

definition three_subscriptions :: "((nat, nat, unit) action, nat Node_scheduler) prog" where
  "three_subscriptions =
     Do (Call_register_event_handler 7 1) (\<lambda>s.
     Do (Call_register_event_handler 8 3) (\<lambda>s.
     Do (Call_register_event_handler 7 2) (\<lambda>s. Return)))"

definition three_subscriptions_and_trigger ::
  "((nat, nat, unit) action, nat Node_scheduler) prog" where
  "three_subscriptions_and_trigger =
     Do (Call_register_event_handler 7 1) (\<lambda>s.
     Do (Call_register_event_handler 8 3) (\<lambda>s.
     Do (Call_register_event_handler 7 2) (\<lambda>s.
     Do (Call_trigger_event 7 0) (\<lambda>s. Return))))"



text \<open>
  Coroutines that are never done and, when resumed, wait for another 20 ms; a handler
  that puts its coroutine on the ready queue.
\<close>

definition never_done :: "coroutine_handle \<Rightarrow> nat Scheduler \<Rightarrow> bool" where
  "never_done h s = False"

definition periodic_task :: "coroutine_handle \<Rightarrow> nat Scheduler \<Rightarrow> nat Scheduler" where
  "periodic_task h = co_await_delay 20 h"


section \<open>Auxiliary lemmas\<close>

subsection \<open>binary64 arithmetic\<close>

lemma binade_ge:
  "k \<le> n \<Longrightarrow> 2 ^ k \<le> x \<Longrightarrow> x < 2 ^ Suc k \<Longrightarrow> binade n x e = e + int k"
proof (induction k arbitrary: n x e)
  case 0
  then show ?case by (cases n) simp_all
next
  case (Suc k)
  then obtain m where n: "n = Suc m" and km: "k \<le> m" by (cases n) simp_all
  from Suc.prems have two: "2 \<le> x"
    using order_trans [of 2 "2 ^ Suc k" x] by simp
  have "binade m (x / 2) (e + 1) = e + 1 + int k"
    using Suc.prems by (intro Suc.IH km) simp_all
  with n two show ?case by simp
qed

lemma binade_lt:
  "k \<le> n \<Longrightarrow> 1 / 2 ^ k \<le> x \<Longrightarrow> x < 2 / 2 ^ k \<Longrightarrow> binade n x e = e - int k"
proof (induction k arbitrary: n x e)
  case 0
  then show ?case by (cases n) simp_all
next
  case (Suc k)
  then obtain m where n: "n = Suc m" and km: "k \<le> m" by (cases n) simp_all
  have le1: "1 / 2 ^ k \<le> (1::real)" by (simp add: divide_le_eq)
  from Suc.prems have "x < 1 / 2 ^ k" by simp
  with le1 have small: "x < 1" "\<not> 2 \<le> x" by linarith+
  have "binade m (x * 2) (e - 1) = e - 1 - int k"
    using Suc.prems by (intro Suc.IH km) (simp_all add: field_simps)
  with n small show ?case by simp
qed

lemma binade_two_to:
  assumes "- 2200 \<le> k" "k \<le> 2200" "two_to k \<le> x" "x < two_to (k + 1)"
  shows "binade 2200 x 0 = k"
proof (cases "0 \<le> k")
  case True
  then have "2 ^ nat k \<le> x" "x < 2 ^ Suc (nat k)"
    using assms by (simp_all add: two_to_def nat_add_distrib)
  then have "binade 2200 x 0 = 0 + int (nat k)"
    using assms True by (intro binade_ge) simp_all
  with True show ?thesis by simp
next
  case False
  then have eq: "nat (- k) = Suc (nat (- (k + 1)))" by simp
  have "1 / 2 ^ nat (- k) \<le> x"
    using assms False by (simp add: two_to_def)
  moreover have "x < 2 / 2 ^ nat (- k)"
  proof (cases "k = - 1")
    case True
    with assms show ?thesis by (simp add: two_to_def)
  next
    case False
    with \<open>\<not> 0 \<le> k\<close> have "\<not> 0 \<le> k + 1" by simp
    then have "two_to (k + 1) = 1 / 2 ^ nat (- (k + 1))" by (simp add: two_to_def)
    with assms eq show ?thesis by simp
  qed
  ultimately have "binade 2200 x 0 = 0 - int (nat (- k))"
    using assms False by (intro binade_lt) simp_all
  with False show ?thesis by simp
qed

lemma b64_round_normal:
  assumes "- 1022 \<le> k" "k \<le> 2200" "two_to k \<le> \<bar>x\<bar>" "\<bar>x\<bar> < two_to (k + 1)"
  shows "b64_round x =
     (let r = of_int (round_half_even (x / two_to (k - 52))) * two_to (k - 52)
      in if \<bar>r\<bar> < 2 ^ 1024 then Fin r else if 0 < x then PInf else NInf)"
proof -
  have "binade 2200 \<bar>x\<bar> 0 = k"
    using assms by (intro binade_two_to) simp_all
  with assms show ?thesis by (simp add: b64_round_def Let_def max_def)
qed


lemma round_half_even_nearest: "\<bar>of_int (round_half_even y) - y\<bar> \<le> 1 / 2"
  unfolding round_half_even_def Let_def by (auto simp: abs_if) linarith+

lemma round_half_even_of_int: "round_half_even (of_int n) = n"
  by (simp add: round_half_even_def)

lemma two_to_pos: "0 < two_to k"
  by (simp add: two_to_def)

lemma b64_round_nearest:
  assumes "- 1022 \<le> k" "k \<le> 2200" "two_to k \<le> \<bar>x\<bar>" "\<bar>x\<bar> < two_to (k + 1)"
    and "b64_round x = Fin r"
  shows "\<bar>r - x\<bar> \<le> two_to (k - 52) / 2" and "\<exists>n. r = of_int n * two_to (k - 52)"
proof -
  define u where "u = two_to (k - 52)"
  define n where "n = round_half_even (x / u)"
  have u: "0 < u" unfolding u_def by (rule two_to_pos)
  have r: "r = of_int n * u"
    using b64_round_normal [OF assms(1-4)] assms(5)
    by (simp add: Let_def u_def n_def split: if_splits)
  have "\<bar>of_int n - x / u\<bar> \<le> 1 / 2"
    unfolding n_def by (rule round_half_even_nearest)
  then have "\<bar>of_int n - x / u\<bar> * u \<le> 1 / 2 * u"
    using u by (intro mult_right_mono) simp_all
  moreover have "\<bar>of_int n - x / u\<bar> * u = \<bar>r - x\<bar>"
  proof -
    have "\<bar>of_int n - x / u\<bar> * u = \<bar>(of_int n - x / u) * u\<bar>"
      using u by (simp add: abs_mult)
    also have "(of_int n - x / u) * u = r - x"
      using u r by (simp add: left_diff_distrib)
    finally show ?thesis .
  qed
  ultimately show "\<bar>r - x\<bar> \<le> two_to (k - 52) / 2" by (simp add: u_def)
  show "\<exists>n. r = of_int n * two_to (k - 52)" using r u_def by blast
qed

lemma binade_below:
  "x < 2 \<Longrightarrow> binade n x e \<le> e"
proof (induction n arbitrary: x e)
  case 0
  then show ?case by simp
next
  case (Suc n)
  show ?case
  proof (cases "x < 1")
    case True
    then have "binade n (x * 2) (e - 1) \<le> e - 1" by (intro Suc.IH) simp
    with True Suc.prems show ?thesis by simp
  next
    case False
    with Suc.prems show ?thesis by simp
  qed
qed

lemma binade_small:
  "k \<le> n \<Longrightarrow> x < 2 / 2 ^ k \<Longrightarrow> binade n x e \<le> e - int k"
proof (induction k arbitrary: n x e)
  case 0
  then show ?case using binade_below [of x n e] by simp
next
  case (Suc k)
  then obtain m where n: "n = Suc m" and km: "k \<le> m" by (cases n) simp_all
  have le1: "1 / 2 ^ k \<le> (1::real)" by (simp add: divide_le_eq)
  from Suc.prems have "x < 1 / 2 ^ k" by simp
  with le1 have small: "x < 1" "\<not> 2 \<le> x" by linarith+
  have "binade m (x * 2) (e - 1) \<le> e - 1 - int k"
    using Suc.prems by (intro Suc.IH km) (simp_all add: field_simps)
  with n small show ?case by simp
qed

lemma b64_round_subnormal:
  assumes "\<bar>x\<bar> < two_to (- 1022)"
  shows "b64_round x = Fin (of_int (round_half_even (x / two_to (- 1074))) * two_to (- 1074))"
proof -
  define u where "u = two_to (- 1074)"
  define n where "n = round_half_even (x / u)"
  have u: "0 < u" unfolding u_def by (rule two_to_pos)
  have "\<bar>x\<bar> < 2 / 2 ^ 1023" using assms by (simp add: two_to_def)
  then have "binade 2200 \<bar>x\<bar> 0 \<le> 0 - int 1023"
    by (intro binade_small) simp_all
  then have e: "max (binade 2200 \<bar>x\<bar> 0) (- 1022) = - 1022" by simp
  have "\<bar>of_int n - x / u\<bar> \<le> 1 / 2"
    unfolding n_def by (rule round_half_even_nearest)
  then have "\<bar>of_int n - x / u\<bar> * u \<le> 1 / 2 * u"
    using u by (intro mult_right_mono) simp_all
  moreover have "\<bar>of_int n - x / u\<bar> * u = \<bar>of_int n * u - x\<bar>"
  proof -
    have "\<bar>of_int n - x / u\<bar> * u = \<bar>(of_int n - x / u) * u\<bar>"
      using u by (simp add: abs_mult)
    also have "(of_int n - x / u) * u = of_int n * u - x"
      using u by (simp add: left_diff_distrib)
    finally show ?thesis .
  qed
  ultimately have "\<bar>of_int n * u - x\<bar> \<le> u / 2" by simp
  then have "\<bar>of_int n * u\<bar> \<le> \<bar>x\<bar> + u / 2" by linarith
  moreover have "u / 2 < 1" "two_to (- 1022) < 1" by (simp_all add: u_def two_to_def)
  ultimately have "\<bar>of_int n * u\<bar> < 2" using assms by linarith
  then have "\<bar>of_int n * u\<bar> < 2 ^ 1024"
    using less_le_trans [of "\<bar>of_int n * u\<bar>" 2 "2 ^ 1024"] by simp
  then show ?thesis
    using e by (simp add: b64_round_def Let_def u_def n_def)
qed

lemma b64_round_0: "b64_round 0 = Fin 0"
  using b64_round_subnormal [of 0] by (simp add: two_to_pos round_half_even_def)











subsection \<open>Registry\<close>

lemma typeid_of_not_base: "typeid_of c \<noteq> ProtectiveComp_tag"
  by (cases c rule: typeid_of.cases) simp_all

lemma built_no_base_tag: "built r \<Longrightarrow> components r ProtectiveComp_tag = None"
proof (induction rule: built.induct)
  case built_init
  then show ?case by (simp add: Registry_init_def)
next
  case (built_create r)
  then show ?case by (simp add: create_def)
next
  case (built_emplace r e c)
  then show ?case using typeid_of_not_base [of c] by (simp add: emplace_def store_def)
qed

text \<open>
  Whatever \<open>create\<close> and \<open>emplace\<close> have built, the loop of \<open>run\<close> visits nothing.
\<close>

lemma run_on_fault_built:
  "built r \<Longrightarrow>
     run_on_fault r fault = map_option (\<lambda>fault_data. []) (calculate_impedance_if_needed fault)"
  by (simp add: run_on_fault_def for_each_def built_no_base_tag split: option.splits)

lemma get_state_put_state: "get_state (put_state e p r) e = Some p"
  by (simp add: get_state_def put_state_def store_def get_def update_conv')

subsection \<open>Limits\<close>

lemma limit_output_in_limits:
  "min_output_kW config \<le> max_output_kW config \<Longrightarrow>
   min_output_kW config \<le> limit_output config p \<and> limit_output config p \<le> max_output_kW config"
  by (simp add: limit_output_def)

lemma ev_soc_guard_in_limits:
  assumes "min_output_kW config \<le> p" and "p \<le> max_output_kW config"
    and "type config = EV_PILE \<longrightarrow> min_output_kW config \<le> 0 \<and> 0 \<le> max_output_kW config"
  shows "min_output_kW config \<le> ev_soc_guard config state p \<and>
         ev_soc_guard config state p \<le> max_output_kW config"
  using assms by (simp add: ev_soc_guard_def Let_def)

text \<open>
  The two conditions on the limits are needed: if the power after a first full update at
  deviation 0 is within the limits for every state of the device, the limits are ordered
  and, for an EV pile, 0 lies within them.
\<close>

lemma limits_condition_necessary:
  assumes "\<forall>state. min_output_kW config \<le> current_power_kW (update_device (- 1) 0 0 config state) \<and>
             current_power_kW (update_device (- 1) 0 0 config state) \<le> max_output_kW config"
  shows "min_output_kW config \<le> max_output_kW config \<and>
         (type config = EV_PILE \<longrightarrow> min_output_kW config \<le> 0 \<and> 0 \<le> max_output_kW config)"
proof -
  let ?hi = "\<lparr>current_power_kW = 0, soc = soc_max_threshold config\<rparr>"
  let ?lo = "\<lparr>current_power_kW = 0, soc = soc_min_threshold config\<rparr>"
  have hi: "min_output_kW config \<le> current_power_kW (update_device (- 1) 0 0 config ?hi) \<and>
             current_power_kW (update_device (- 1) 0 0 config ?hi) \<le> max_output_kW config"
    using assms by blast
  have lo: "min_output_kW config \<le> current_power_kW (update_device (- 1) 0 0 config ?lo) \<and>
             current_power_kW (update_device (- 1) 0 0 config ?lo) \<le> max_output_kW config"
    using assms by blast
  have ord: "min_output_kW config \<le> max_output_kW config"
    using hi by linarith
  have "min_output_kW config \<le> 0 \<and> 0 \<le> max_output_kW config" if ev: "type config = EV_PILE"
  proof (rule ccontr)
    assume n: "\<not> (min_output_kW config \<le> 0 \<and> 0 \<le> max_output_kW config)"
    show False
    proof (cases "max_output_kW config < 0")
      case True
      then show ?thesis using hi ev ord
        by (simp add: update_device_def ev_soc_guard_def limit_output_def Let_def
            split: if_splits)
    next
      case False
      then have "0 < min_output_kW config" using n by simp
      then show ?thesis using lo ev ord
        by (simp add: update_device_def ev_soc_guard_def limit_output_def Let_def
            split: if_splits)
    qed
  qed
  with ord show ?thesis by simp
qed

lemma integrate_soc_clamped:
  "0 \<le> soc (integrate_soc config dt state) \<and> soc (integrate_soc config dt state) \<le> 1"
  by (simp add: integrate_soc_def Let_def)

subsection \<open>Dedupe\<close>

lemma dedupe_time_after_delivery:
  "current_sim_time_seconds info
     \<le> last_processed_event_time_s (fst (snd (vpp_on_event m info st)))"
  by (simp add: vpp_on_event_def Let_def)

lemma after_first_update_locals:
  "fst after_first_update =
     \<lparr>last_processed_event_time_s = 1, vpp_instance_last_full_update_time_s = 1,
      vpp_instance_last_full_update_freq_dev_hz = 0\<rparr>"
  by (simp add: after_first_update_def vpp_on_event_def gating_def VppState_init_def Let_def)

subsection \<open>Multimaps and timers\<close>

lemma set_mm_emplace: "set (mm_emplace k v xs) = insert (k, v) (set xs)"
  by (induction k v xs rule: mm_emplace.induct) auto

lemma sorted_mm_emplace: "sorted (map fst xs) \<Longrightarrow> sorted (map fst (mm_emplace k v xs))"
proof (induction k v xs rule: mm_emplace.induct)
  case (1 k v)
  then show ?case by simp
next
  case (2 k v k' v' xs)
  show ?case
  proof (cases "k' \<le> k")
    case True
    then show ?thesis using 2 by (auto simp: set_mm_emplace)
  next
    case False
    then have "k \<le> k'" by simp
    moreover have "\<forall>x \<in> set xs. k \<le> fst x"
      using 2(2) \<open>k \<le> k'\<close> by auto
    ultimately show ?thesis using False 2(2) by simp
  qed
qed




subsection \<open>The time discipline is kept by every call\<close>

lemma init_time: "timers_not_before_now Scheduler_init"
  by (simp add: timers_not_before_now_def Scheduler_init_def)


lemma call_handlers_time:
  assumes r: "\<forall>h d. respects_time (invoke h d)"
  shows "timers_not_before_now s \<Longrightarrow>
    timers_not_before_now (snd (call_handlers invoke d hs called s)) \<and>
    current_time (snd (call_handlers invoke d hs called s)) = current_time s"
proof (induction hs arbitrary: called s)
  case Nil
  then show ?case by simp
next
  case (Cons h hs)
  have "timers_not_before_now (invoke h d s) \<and> current_time (invoke h d s) = current_time s"
    using r Cons.prems by (simp add: respects_time_def)
  then show ?case using Cons.IH [of "invoke h d s" "called @ [h]"] by simp
qed

lemma trigger_event_time:
  assumes r: "\<forall>h d. respects_time (invoke h d)" and i: "timers_not_before_now s"
  shows "timers_not_before_now (snd (trigger_event invoke e data s)) \<and>
    current_time (snd (trigger_event invoke e data s)) = current_time s"
proof -
  let ?s1 = "if filter (\<lambda>(k, h). k = e) (event_handlers s) \<noteq> []
             then s\<lparr>event_handlers := filter (\<lambda>(k, h). k \<noteq> e) (event_handlers s)\<rparr> else s"
  have "timers_not_before_now ?s1" and "current_time ?s1 = current_time s"
    using i by (simp_all add: timers_not_before_now_def)
  then show ?thesis
    using call_handlers_time [OF r, of ?s1 "Some data"
        "map snd (filter (\<lambda>(k, h). k = e) (event_handlers s))" "[]"]
    by (simp add: trigger_event_def Let_def)
qed

lemma schedule_after_time:
  "0 \<le> delay \<Longrightarrow> timers_not_before_now s \<Longrightarrow>
   timers_not_before_now (schedule_after delay h s) \<and>
   current_time (schedule_after delay h s) = current_time s"
  by (auto simp: schedule_after_def timers_not_before_now_def sorted_mm_emplace
      list_all_iff set_mm_emplace)



text \<open>
  The calls a coroutine or a handler can make, other than \<open>set_time\<close> and
  \<open>advance_time\<close>, keep the discipline, and so does every sequence of them;
  \<open>set_time\<close> to an earlier time does not.
\<close>

lemma respects_time_comp:
  "respects_time f \<Longrightarrow> respects_time g \<Longrightarrow> respects_time (g \<circ> f)"
  by (simp add: respects_time_def)

lemma register_event_handler_respects_time: "respects_time (register_event_handler e handler)"
  by (simp add: respects_time_def register_event_handler_def timers_not_before_now_def)

lemma schedule_after_respects_time: "0 \<le> delay \<Longrightarrow> respects_time (schedule_after delay h)"
  unfolding respects_time_def using schedule_after_time by blast

lemma trigger_event_respects_time:
  assumes "\<forall>h d. respects_time (invoke h d)"
  shows "respects_time (\<lambda>s. snd (trigger_event invoke e data s))"
  using trigger_event_time [OF assms] by (simp add: respects_time_def)

lemma set_time_back: "\<not> respects_time (set_time (- 1) :: nat Scheduler \<Rightarrow> nat Scheduler)"
proof
  assume "respects_time (set_time (- 1) :: nat Scheduler \<Rightarrow> nat Scheduler)"
  then have "current_time (set_time (- 1) (Scheduler_init :: nat Scheduler))
      = current_time (Scheduler_init :: nat Scheduler)"
    using init_time unfolding respects_time_def by blast
  then show False by (simp add: set_time_def Scheduler_init_def)
qed



subsection \<open>Calling the handlers of a snapshot\<close>

lemma call_handlers_fold:
  "call_handlers invoke d hs called s = (called @ hs, fold (\<lambda>h. invoke h d) hs s)"
  by (induction hs arbitrary: called s) simp_all

lemma trigger_event_unfold:
  "trigger_event invoke event_id data s
     = (map snd (filter (\<lambda>x. fst x = event_id) (event_handlers s)),
        fold (\<lambda>h. invoke h (Some data))
          (map snd (filter (\<lambda>x. fst x = event_id) (event_handlers s)))
          (s\<lparr>event_handlers := filter (\<lambda>x. fst x \<noteq> event_id) (event_handlers s)\<rparr>))"
proof -
  let ?range = "filter (\<lambda>x. fst x = event_id) (event_handlers s)"
  let ?s1 = "s\<lparr>event_handlers := filter (\<lambda>x. fst x \<noteq> event_id) (event_handlers s)\<rparr>"
  have lam: "(\<lambda>(k, h). k = event_id) = (\<lambda>x. fst x = event_id)"
    "(\<lambda>(k, h). k \<noteq> event_id) = (\<lambda>x. fst x \<noteq> event_id)"
    by auto
  have erased: "?range = [] \<Longrightarrow> ?s1 = s"
  proof -
    assume "?range = []"
    then have "\<forall>x \<in> set (event_handlers s). fst x \<noteq> event_id"
      by (simp add: filter_empty_conv)
    then have "filter (\<lambda>x. fst x \<noteq> event_id) (event_handlers s) = event_handlers s"
      by simp
    then show "?s1 = s" by simp
  qed
  then show ?thesis
    by (simp add: trigger_event_def Let_def lam call_handlers_fold)
qed

lemma trigger_event_no_data_unfold:
  "trigger_event_no_data invoke event_id s
     = (map snd (filter (\<lambda>x. fst x = event_id) (event_handlers s)),
        fold (\<lambda>h. invoke h None)
          (map snd (filter (\<lambda>x. fst x = event_id) (event_handlers s)))
          (s\<lparr>event_handlers := filter (\<lambda>x. fst x \<noteq> event_id) (event_handlers s)\<rparr>))"
proof -
  let ?range = "filter (\<lambda>x. fst x = event_id) (event_handlers s)"
  let ?s1 = "s\<lparr>event_handlers := filter (\<lambda>x. fst x \<noteq> event_id) (event_handlers s)\<rparr>"
  have lam: "(\<lambda>(k, h). k = event_id) = (\<lambda>x. fst x = event_id)"
    "(\<lambda>(k, h). k \<noteq> event_id) = (\<lambda>x. fst x \<noteq> event_id)"
    by auto
  have erased: "?range = [] \<Longrightarrow> ?s1 = s"
  proof -
    assume "?range = []"
    then have "\<forall>x \<in> set (event_handlers s). fst x \<noteq> event_id"
      by (simp add: filter_empty_conv)
    then have "filter (\<lambda>x. fst x \<noteq> event_id) (event_handlers s) = event_handlers s"
      by simp
    then show "?s1 = s" by simp
  qed
  then show ?thesis
    by (simp add: trigger_event_no_data_def Let_def lam call_handlers_fold)
qed

subsection \<open>Nodes added by calls\<close>

lemma adds_only_newI:
  assumes "\<And>s. nodes_numbered s \<Longrightarrow> nodes_numbered (f s)"
    and "\<And>s. nodes_numbered s \<Longrightarrow> next_node s \<le> next_node (f s)"
    and "\<And>s x. nodes_numbered s \<Longrightarrow> x \<in> set (event_handlers (f s)) \<Longrightarrow>
           x \<in> set (event_handlers s) \<or> next_node s \<le> fst (snd x)"
  shows "adds_only_new f"
  using assms unfolding adds_only_new_def by blast

lemma adds_only_newD:
  assumes "adds_only_new f" and "nodes_numbered s"
  shows "nodes_numbered (f s)" and "next_node s \<le> next_node (f s)"
    and "x \<in> set (event_handlers (f s)) \<Longrightarrow> x \<in> set (event_handlers s) \<or> next_node s \<le> fst (snd x)"
  using assms unfolding adds_only_new_def by blast+

lemma adds_only_new_same:
  assumes "\<And>s. event_handlers (f s) = event_handlers s" and "\<And>s. next_node (f s) = next_node s"
  shows "adds_only_new f"
  using assms by (simp add: adds_only_new_def nodes_numbered_def)

lemma adds_only_new_then:
  fixes f g :: "('g, 'w) Node_scheduler_scheme \<Rightarrow> ('g, 'w) Node_scheduler_scheme"
  assumes f: "adds_only_new f" and g: "adds_only_new g"
  shows "adds_only_new (\<lambda>s. g (f s))"
proof (rule adds_only_newI)
  fix s :: "('g, 'w) Node_scheduler_scheme"
  assume s: "nodes_numbered s"
  note fs = adds_only_newD [OF f s]
  note gs = adds_only_newD [OF g fs(1)]
  show "nodes_numbered (g (f s))" by (rule gs(1))
  show "next_node s \<le> next_node (g (f s))" using fs(2) gs(2) by simp
  fix x assume "x \<in> set (event_handlers (g (f s)))"
  then have "x \<in> set (event_handlers (f s)) \<or> next_node (f s) \<le> fst (snd x)" by (rule gs(3))
  then show "x \<in> set (event_handlers s) \<or> next_node s \<le> fst (snd x)"
    using fs(2) fs(3) [of x] by auto
qed

lemma adds_only_new_subscribe: "adds_only_new (subscribe e g)"
  by (auto simp: adds_only_new_def nodes_numbered_def subscribe_def register_event_handler_def
      set_mm_emplace list_all_iff less_Suc_eq)

lemma adds_only_new_fold:
  fixes inv :: "'h \<Rightarrow> ('g, 'w) Node_scheduler_scheme \<Rightarrow> ('g, 'w) Node_scheduler_scheme"
  assumes "\<And>h. adds_only_new (inv h)"
  shows "adds_only_new (fold inv hs)"
proof (induction hs)
  case Nil
  show ?case by (simp add: adds_only_new_def)
next
  case (Cons h hs)
  have "adds_only_new (\<lambda>s. fold inv hs (inv h s))"
    by (rule adds_only_new_then [OF assms [of h] Cons])
  then show ?case by (simp add: comp_def)
qed

lemma adds_only_new_erase:
  "adds_only_new (\<lambda>s. s\<lparr>event_handlers := filter P (event_handlers s)\<rparr>)"
  by (auto simp: adds_only_new_def nodes_numbered_def list_all_iff)

lemma adds_only_new_trigger_event:
  fixes invoke ::
    "nat \<times> 'g \<Rightarrow> 'd option \<Rightarrow> ('g, 'w) Node_scheduler_scheme \<Rightarrow> ('g, 'w) Node_scheduler_scheme"
  assumes "\<And>h d. adds_only_new (invoke h d)"
  shows "adds_only_new (\<lambda>s. snd (trigger_event invoke e data s))"
proof (rule adds_only_newI)
  fix s :: "('g, 'w) Node_scheduler_scheme"
  assume s: "nodes_numbered s"
  let ?hs = "map snd (filter (\<lambda>x. fst x = e) (event_handlers s))"
  let ?s1 = "s\<lparr>event_handlers := filter (\<lambda>x. fst x \<noteq> e) (event_handlers s)\<rparr>"
  have r: "snd (trigger_event invoke e data s) = fold (\<lambda>h. invoke h (Some data)) ?hs ?s1"
    by (simp add: trigger_event_unfold)
  have s1: "nodes_numbered ?s1" using s by (auto simp: nodes_numbered_def list_all_iff)
  have f: "adds_only_new (fold (\<lambda>h. invoke h (Some data)) ?hs)"
    by (rule adds_only_new_fold) (rule assms)
  note d = adds_only_newD [OF f s1]
  show "nodes_numbered (snd (trigger_event invoke e data s))" using d(1) r by simp
  show "next_node s \<le> next_node (snd (trigger_event invoke e data s))" using d(2) r by simp
  fix x assume "x \<in> set (event_handlers (snd (trigger_event invoke e data s)))"
  then have "x \<in> set (event_handlers ?s1) \<or> next_node ?s1 \<le> fst (snd x)"
    using d(3) [of x] r by simp
  then show "x \<in> set (event_handlers s) \<or> next_node s \<le> fst (snd x)" by auto
qed

lemma adds_only_new_trigger_event_no_data:
  fixes invoke ::
    "nat \<times> 'g \<Rightarrow> 'd option \<Rightarrow> ('g, 'w) Node_scheduler_scheme \<Rightarrow> ('g, 'w) Node_scheduler_scheme"
  assumes "\<And>h d. adds_only_new (invoke h d)"
  shows "adds_only_new (\<lambda>s. snd (trigger_event_no_data invoke e s))"
proof (rule adds_only_newI)
  fix s :: "('g, 'w) Node_scheduler_scheme"
  assume s: "nodes_numbered s"
  let ?hs = "map snd (filter (\<lambda>x. fst x = e) (event_handlers s))"
  let ?s1 = "s\<lparr>event_handlers := filter (\<lambda>x. fst x \<noteq> e) (event_handlers s)\<rparr>"
  have r: "snd (trigger_event_no_data invoke e s) = fold (\<lambda>h. invoke h None) ?hs ?s1"
    by (simp add: trigger_event_no_data_unfold)
  have s1: "nodes_numbered ?s1" using s by (auto simp: nodes_numbered_def list_all_iff)
  have f: "adds_only_new (fold (\<lambda>h. invoke h None) ?hs)"
    by (rule adds_only_new_fold) (rule assms)
  note d = adds_only_newD [OF f s1]
  show "nodes_numbered (snd (trigger_event_no_data invoke e s))" using d(1) r by simp
  show "next_node s \<le> next_node (snd (trigger_event_no_data invoke e s))" using d(2) r by simp
  fix x assume "x \<in> set (event_handlers (snd (trigger_event_no_data invoke e s)))"
  then have "x \<in> set (event_handlers ?s1) \<or> next_node ?s1 \<le> fst (snd x)"
    using d(3) [of x] r by simp
  then show "x \<in> set (event_handlers s) \<or> next_node s \<le> fst (snd x)" by auto
qed

lemma adds_only_new_run_one_step:
  fixes h_resume ::
    "coroutine_handle \<Rightarrow> ('g, 'w) Node_scheduler_scheme \<Rightarrow> ('g, 'w) Node_scheduler_scheme"
  assumes "\<And>h. adds_only_new (h_resume h)"
  shows "adds_only_new (\<lambda>s. snd (run_one_step h_done h_resume s))"
proof (rule adds_only_newI)
  fix s :: "('g, 'w) Node_scheduler_scheme"
  assume s: "nodes_numbered s"
  show "nodes_numbered (snd (run_one_step h_done h_resume s))"
    "next_node s \<le> next_node (snd (run_one_step h_done h_resume s))"
    "\<And>x. x \<in> set (event_handlers (snd (run_one_step h_done h_resume s))) \<Longrightarrow>
       x \<in> set (event_handlers s) \<or> next_node s \<le> fst (snd x)"
  proof -
    show "nodes_numbered (snd (run_one_step h_done h_resume s))"
    proof (cases "ready_tasks s")
      case Nil
      then show ?thesis using s
        by (simp add: run_one_step_def Let_def set_time_def nodes_numbered_def split: list.splits prod.splits)
    next
      case (Cons h rest)
      have "nodes_numbered (s\<lparr>ready_tasks := rest\<rparr>)" using s by (simp add: nodes_numbered_def)
      then show ?thesis using Cons adds_only_newD(1) [OF assms, of "s\<lparr>ready_tasks := rest\<rparr>" h]
        by (simp add: run_one_step_def Let_def)
    qed
    show "next_node s \<le> next_node (snd (run_one_step h_done h_resume s))"
    proof (cases "ready_tasks s")
      case Nil
      then show ?thesis
        by (simp add: run_one_step_def Let_def set_time_def split: list.splits prod.splits)
    next
      case (Cons h rest)
      have "nodes_numbered (s\<lparr>ready_tasks := rest\<rparr>)" using s by (simp add: nodes_numbered_def)
      then show ?thesis using Cons adds_only_newD(2) [OF assms, of "s\<lparr>ready_tasks := rest\<rparr>" h]
        by (simp add: run_one_step_def Let_def)
    qed
    fix x assume x: "x \<in> set (event_handlers (snd (run_one_step h_done h_resume s)))"
    show "x \<in> set (event_handlers s) \<or> next_node s \<le> fst (snd x)"
    proof (cases "ready_tasks s")
      case Nil
      then show ?thesis using x
        by (simp add: run_one_step_def Let_def set_time_def split: list.splits prod.splits)
    next
      case (Cons h rest)
      have "nodes_numbered (s\<lparr>ready_tasks := rest\<rparr>)" using s by (simp add: nodes_numbered_def)
      then show ?thesis using Cons x adds_only_newD(3) [OF assms, of "s\<lparr>ready_tasks := rest\<rparr>" x h]
        by (simp add: run_one_step_def Let_def split: if_splits)
    qed
  qed
qed

lemma adds_only_new_do_action:
  fixes invoke ::
    "nat \<times> 'g \<Rightarrow> 'd option \<Rightarrow> ('g, 'w) Node_scheduler_scheme \<Rightarrow> ('g, 'w) Node_scheduler_scheme"
  assumes "\<And>h d. adds_only_new (invoke h d)" and "\<And>h. adds_only_new (h_resume h)"
  shows "adds_only_new (do_action invoke h_resume h_done a)"
proof (cases a)
  case (Call_register_event_handler e g)
  then show ?thesis using adds_only_new_subscribe [of e g] by (simp add: do_action.simps [abs_def])
next
  case (Call_trigger_event e d)
  then show ?thesis using adds_only_new_trigger_event [of invoke e d, OF assms(1)]
    by (simp add: do_action.simps [abs_def])
next
  case (Call_trigger_event_no_data e)
  then show ?thesis using adds_only_new_trigger_event_no_data [of invoke e, OF assms(1)]
    by (simp add: do_action.simps [abs_def])
next
  case (Call_schedule h)
  have "adds_only_new (schedule h :: ('g, 'w) Node_scheduler_scheme \<Rightarrow> _)"
    by (rule adds_only_new_same) (simp_all add: schedule_def)
  then show ?thesis using Call_schedule by (simp add: do_action.simps [abs_def])
next
  case (Call_schedule_after delay h)
  have "adds_only_new (schedule_after delay h :: ('g, 'w) Node_scheduler_scheme \<Rightarrow> _)"
    by (rule adds_only_new_same) (simp_all add: schedule_after_def)
  then show ?thesis using Call_schedule_after by (simp add: do_action.simps [abs_def])
next
  case (Call_set_time t)
  have "adds_only_new (set_time t :: ('g, 'w) Node_scheduler_scheme \<Rightarrow> _)"
    by (rule adds_only_new_same) (simp_all add: set_time_def)
  then show ?thesis using Call_set_time by (simp add: do_action.simps [abs_def])
next
  case (Call_advance_time delta)
  have "adds_only_new (advance_time delta :: ('g, 'w) Node_scheduler_scheme \<Rightarrow> _)"
    by (rule adds_only_new_same) (simp_all add: advance_time_def)
  then show ?thesis using Call_advance_time by (simp add: do_action.simps [abs_def])
next
  case Call_run_one_step
  then show ?thesis using adds_only_new_run_one_step [of h_resume h_done, OF assms(2)]
    by (simp add: do_action.simps [abs_def])
next
  case (Elsewhere f)
  have "adds_only_new (Node_scheduler.more_update f :: ('g, 'w) Node_scheduler_scheme \<Rightarrow> _)"
    by (rule adds_only_new_same) simp_all
  then show ?thesis using Elsewhere by (simp add: do_action.simps [abs_def])
qed

lemma adds_only_new_counted_action:
  fixes invoke ::
    "nat \<times> 'g \<Rightarrow> 'd option \<Rightarrow> ('g, 'w) Node_scheduler_scheme \<Rightarrow> ('g, 'w) Node_scheduler_scheme"
  assumes "\<And>h d. adds_only_new (invoke h d)" and "\<And>h. adds_only_new (h_resume h)"
  shows "adds_only_new (counted_action invoke h_resume h_done a)"
proof (rule adds_only_newI)
  fix s :: "('g, 'w) Node_scheduler_scheme"
  assume s: "nodes_numbered s"
  let ?s1 = "s\<lparr>steps_left := steps_left s - 1\<rparr>"
  have s1: "nodes_numbered ?s1" using s by (simp add: nodes_numbered_def)
  note d = adds_only_newD [OF adds_only_new_do_action [of invoke h_resume h_done a, OF assms] s1]
  show "nodes_numbered (counted_action invoke h_resume h_done a s)"
    using s d(1) by (simp add: counted_action_def)
  show "next_node s \<le> next_node (counted_action invoke h_resume h_done a s)"
    using d(2) by (simp add: counted_action_def)
  fix x assume "x \<in> set (event_handlers (counted_action invoke h_resume h_done a s))"
  then show "x \<in> set (event_handlers s) \<or> next_node s \<le> fst (snd x)"
    using d(3) [of x] by (simp add: counted_action_def split: if_splits)
qed

lemma adds_only_new_run_prog:
  fixes act :: "'a \<Rightarrow> ('g, 'w) Node_scheduler_scheme \<Rightarrow> ('g, 'w) Node_scheduler_scheme"
  assumes "\<And>a. adds_only_new (act a)"
  shows "adds_only_new (run_prog act p)"
proof (induction p)
  case Return
  show ?case by (simp add: adds_only_new_def)
next
  case (Do a k)
  show ?case
  proof (rule adds_only_newI)
    fix s :: "('g, 'w) Node_scheduler_scheme"
    assume s: "nodes_numbered s"
    note as = adds_only_newD [OF assms [of a] s]
    have k: "adds_only_new (run_prog act (k (act a s)))"
      using Do.IH by (simp add: range_eqI)
    note ks = adds_only_newD [OF k as(1)]
    show "nodes_numbered (run_prog act (Do a k) s)" using ks(1) by simp
    show "next_node s \<le> next_node (run_prog act (Do a k) s)" using as(2) ks(2) by simp
    fix x assume "x \<in> set (event_handlers (run_prog act (Do a k) s))"
    then have "x \<in> set (event_handlers (act a s)) \<or> next_node (act a s) \<le> fst (snd x)"
      using ks(3) [of x] by simp
    then show "x \<in> set (event_handlers s) \<or> next_node s \<le> fst (snd x)"
      using as(2) as(3) [of x] by auto
  qed
qed

lemma adds_only_new_nested:
  fixes hb :: "'g \<Rightarrow> 'd option \<Rightarrow> (('g, 'd, 'w) action, ('g, 'w) Node_scheduler_scheme) prog"
  shows "adds_only_new (nested n hb tb td p)"
proof (induction n arbitrary: p)
  case 0
  have "adds_only_new (nested 0 hb tb td p)"
    by (rule adds_only_new_same) simp_all
  then show ?case .
next
  case (Suc n)
  have "adds_only_new (run_prog
       (counted_action (\<lambda>h d. nested n hb tb td (hb (snd h) d))
          (\<lambda>c. nested n hb tb td (tb c)) td) p)"
    by (rule adds_only_new_run_prog) (rule adds_only_new_counted_action; rule Suc)
  then show ?case by (simp add: nested.simps(2) [abs_def])
qed

lemma adds_only_new_handler_call: "adds_only_new (handler_call n hb tb td h d)"
  by (simp add: handler_call_def adds_only_new_nested)

lemma adds_only_new_task_resume: "adds_only_new (task_resume n hb tb td c)"
  by (simp add: task_resume_def adds_only_new_nested)

lemma nodes_numbered_init: "nodes_numbered ((Node_scheduler_init w)\<lparr>steps_left := k\<rparr>)"
  by (simp add: nodes_numbered_def Node_scheduler_init_def)

lemma nodes_numbered_after_calls: "nodes_numbered (after_calls k j n hb tb td w p)"
proof -
  have "adds_only_new
      (run_prog (counted_action (handler_call n hb tb td) (task_resume n hb tb td) td) p)"
    by (rule adds_only_new_run_prog)
       (rule adds_only_new_counted_action, rule adds_only_new_handler_call,
        rule adds_only_new_task_resume)
  then have "nodes_numbered
      (run_prog (counted_action (handler_call n hb tb td) (task_resume n hb tb td) td) p
         ((Node_scheduler_init w)\<lparr>steps_left := k\<rparr>))"
    using nodes_numbered_init by (rule adds_only_newD(1))
  then show ?thesis by (simp add: after_calls_def nodes_numbered_def)
qed

lemma one_shot_numbered:
  fixes invoke ::
    "nat \<times> 'g \<Rightarrow> 'd option \<Rightarrow> ('g, 'w) Node_scheduler_scheme \<Rightarrow> ('g, 'w) Node_scheduler_scheme"
  assumes inv: "\<And>h d. adds_only_new (invoke h d)" and s: "nodes_numbered s"
  shows "(\<forall>x \<in> set (event_handlers s). fst x = event_id \<longrightarrow>
            x \<notin> set (event_handlers (snd (trigger_event invoke event_id data s)))) \<and>
         (\<forall>x \<in> set (event_handlers (snd (trigger_event invoke event_id data s))).
            fst x = event_id \<longrightarrow> snd x \<notin> set (fst (trigger_event invoke event_id data s))) \<and>
         (\<forall>h \<in> set (fst (trigger_event invoke event_id data s)). fst h < next_node s) \<and>
         (\<forall>x \<in> set (event_handlers (snd (trigger_event invoke event_id data s))).
            fst x = event_id \<longrightarrow> next_node s \<le> fst (snd x))"
proof -
  let ?hs = "map snd (filter (\<lambda>x. fst x = event_id) (event_handlers s))"
  let ?s1 = "s\<lparr>event_handlers := filter (\<lambda>x. fst x \<noteq> event_id) (event_handlers s)\<rparr>"
  let ?r = "trigger_event invoke event_id data s"
  have r: "?r = (?hs, fold (\<lambda>h. invoke h (Some data)) ?hs ?s1)"
    by (rule trigger_event_unfold)
  have s1: "nodes_numbered ?s1" using s by (auto simp: nodes_numbered_def list_all_iff)
  have f: "adds_only_new (fold (\<lambda>h. invoke h (Some data)) ?hs)"
    by (rule adds_only_new_fold) (rule inv)
  have new: "x \<in> set (event_handlers ?s1) \<or> next_node s \<le> fst (snd x)"
    if "x \<in> set (event_handlers (snd ?r))" for x
    using adds_only_newD(3) [OF f s1, of x] that r by simp
  have old: "fst (snd x) < next_node s" if "x \<in> set (event_handlers s)" for x
    using s that by (simp add: nodes_numbered_def list_all_iff)
  have late: "next_node s \<le> fst (snd x)"
    if "x \<in> set (event_handlers (snd ?r))" and "fst x = event_id" for x
    using new [OF that(1)] that(2) by auto
  have gone: "x \<notin> set (event_handlers (snd ?r))"
    if "x \<in> set (event_handlers s)" and "fst x = event_id" for x
    using late [of x] old [OF that(1)] that(2) by auto
  have called: "fst h < next_node s" if "h \<in> set (fst ?r)" for h
    using that old r by auto
  have notcalled: "snd x \<notin> set (fst ?r)"
    if "x \<in> set (event_handlers (snd ?r))" and "fst x = event_id" for x
    using late [OF that] called [of "snd x"] by auto
  show ?thesis using gone notcalled called late by blast
qed

subsection \<open>The example of closures that register themselves again\<close>

lemma call_resubscribing:
  "handler_call (Suc n) resubscribing no_task no_task_done h d s =
     (if steps_left s = 0 then s
      else subscribe 7 (snd h) (s\<lparr>steps_left := steps_left s - 1\<rparr>))"
  by (simp add: handler_call_def resubscribing_def counted_action_def)

lemma after_three:
  "after_calls 10 10 (Suc 0) resubscribing no_task no_task_done () three_subscriptions =
     \<lparr>current_time = 0, ready_tasks = [], timed_tasks = [],
      event_handlers = [(7, (0, 1)), (7, (2, 2)), (8, (1, 3))], next_node = 3,
      steps_left = 10, out_of_fuel = False\<rparr>"
  by (simp add: after_calls_def three_subscriptions_def Node_scheduler_init_def subscribe_def
      register_event_handler_def counted_action_def)

lemma after_three_and_trigger:
  "after_calls 10 10 (Suc 0) resubscribing no_task no_task_done ()
       three_subscriptions_and_trigger =
     \<lparr>current_time = 0, ready_tasks = [], timed_tasks = [],
      event_handlers = [(7, (3, 1)), (7, (4, 2)), (8, (1, 3))], next_node = 5,
      steps_left = 10, out_of_fuel = False\<rparr>"
  by (simp add: after_calls_def three_subscriptions_and_trigger_def Node_scheduler_init_def
      subscribe_def register_event_handler_def counted_action_def trigger_event_unfold
      call_resubscribing [abs_def])

lemma after_five:
  "after_calls 5 10 (Suc 0) resubscribing no_task no_task_done ()
       three_subscriptions_and_trigger =
     \<lparr>current_time = 0, ready_tasks = [], timed_tasks = [],
      event_handlers = [(7, (3, 1)), (8, (1, 3))], next_node = 4,
      steps_left = 10, out_of_fuel = False\<rparr>"
  by (simp add: after_calls_def three_subscriptions_and_trigger_def Node_scheduler_init_def
      subscribe_def register_event_handler_def counted_action_def trigger_event_unfold
      call_resubscribing [abs_def])

section \<open>Results\<close>

subsection \<open>Protection engine\<close>

text \<open>
  C1. The claim is that on every injected fault the loop of \<open>run\<close> queries every
  protective component of the registry and spawns a trip sub-task for each one that
  picks up. In the code the loop is \<open>for_each<ProtectiveComp>\<close>, which looks under the
  tag of the base class, while \<open>emplace\<close> stores each component under the tag of its own
  class. On the registry of \<open>main\<close> and its first fault (15 kA on the line, entity 1) the
  loop spawns no sub-task, although the three stored protective components are there
  and each of them picks the fault up. The impedance of this fault is set, so none is
  derived for it.
\<close>

theorem run_on_fault_main_registry:
  "run_on_fault main_registry fault1 = Some [] \<and>
   calculate_impedance_if_needed fault1 = Some fault1 \<and>
   get OverCurrentProtection_tag 1 main_registry
     = Some (Protective (OverCurrent (new_OverCurrentProtection 5 200 ''OC-L1P-Fast''))) \<and>
   pick_up (OverCurrent (new_OverCurrentProtection 5 200 ''OC-L1P-Fast''))
     fault1 1 \<and>
   get DistanceProtection_tag 1 main_registry
     = Some (Protective (Distance (new_DistanceProtection 5 0 15 300 25 700))) \<and>
   pick_up (Distance (new_DistanceProtection 5 0 15 300 25 700))
     fault1 1 \<and>
   get OverCurrentProtection_tag 2 main_registry
     = Some (Protective (OverCurrent (new_OverCurrentProtection (5 / 2) 300 ''OC-T1P-Main''))) \<and>
   pick_up (OverCurrent (new_OverCurrentProtection (5 / 2) 300 ''OC-T1P-Main''))
     fault1 2"
proof -
  have derived: "calculate_impedance_if_needed fault1 = Some fault1"
    by (simp add: calculate_impedance_if_needed_def fault1_def)
  have "components main_registry ProtectiveComp_tag = None"
    by (simp add: main_registry_def create_def emplace_def store_def Registry_init_def Let_def)
  then have "run_on_fault main_registry fault1 = Some []"
    using derived by (simp add: run_on_fault_def for_each_def)
  moreover have "get OverCurrentProtection_tag 1 main_registry
     = Some (Protective (OverCurrent (new_OverCurrentProtection 5 200 ''OC-L1P-Fast'')))"
    "get DistanceProtection_tag 1 main_registry
     = Some (Protective (Distance (new_DistanceProtection 5 0 15 300 25 700)))"
    "get OverCurrentProtection_tag 2 main_registry
     = Some (Protective (OverCurrent (new_OverCurrentProtection (5 / 2) 300 ''OC-T1P-Main'')))"
    by (simp_all add: main_registry_def create_def emplace_def store_def Registry_init_def
        get_def entity_map_def Let_def)
  moreover have "pick_up (OverCurrent (new_OverCurrentProtection 5 200 ''OC-L1P-Fast''))
     fault1 1"
    "pick_up (Distance (new_DistanceProtection 5 0 15 300 25 700))
     fault1 1"
    "pick_up (OverCurrent (new_OverCurrentProtection (5 / 2) 300 ''OC-T1P-Main''))
     fault1 2"
    by (simp_all add: oc_pick_up_def dist_pick_up_def new_OverCurrentProtection_def
        new_DistanceProtection_def fault1_def)
  ultimately show ?thesis using derived by simp
qed

subsection \<open>Triggering an event\<close>

text \<open>
  C2. \<open>trigger_event(event_id, data)\<close> calls exactly the handlers subscribed to
  \<open>event_id\<close> at the moment of the call, in subscription order; they run on a
  subscription map from which all of their nodes have been removed, and the map on
  return is what they leave: \<open>trigger_event\<close> removes nothing else and calls nothing
  else. So no node subscribed to \<open>event_id\<close> at the call is in the map on return; every
  node of \<open>event_id\<close> in the map on return was registered while the handlers ran (its
  number is not below the next number at the call), was not called by this trigger, and
  remains subscribed; and every node that was called had been registered before the call.

  This holds of every state in which a call can find the scheduler: after any number
  of actions of any code that has used the scheduler since its construction through
  the public member functions, for handlers and coroutines whatever they do through
  these functions, also when a handler registers its own closure again, at every bound
  on the depth of nested calls, and with the processing followed for any number of
  steps. The first two parts hold of every state and of handlers whatever
  (\<open>trigger_event_unfold\<close>).
\<close>

theorem trigger_event_one_shot:
  "fst (trigger_event (handler_call n hb tb td) event_id data (after_calls k j m hb tb td w p))
     = map snd (filter (\<lambda>x. fst x = event_id) (event_handlers (after_calls k j m hb tb td w p))) \<and>
   snd (trigger_event (handler_call n hb tb td) event_id data (after_calls k j m hb tb td w p))
     = fold (\<lambda>h. handler_call n hb tb td h (Some data))
         (map snd (filter (\<lambda>x. fst x = event_id) (event_handlers (after_calls k j m hb tb td w p))))
         ((after_calls k j m hb tb td w p)
            \<lparr>event_handlers :=
               filter (\<lambda>x. fst x \<noteq> event_id) (event_handlers (after_calls k j m hb tb td w p))\<rparr>) \<and>
   (\<forall>x \<in> set (event_handlers (after_calls k j m hb tb td w p)). fst x = event_id \<longrightarrow>
      x \<notin> set (event_handlers
                (snd (trigger_event (handler_call n hb tb td) event_id data
                        (after_calls k j m hb tb td w p))))) \<and>
   (\<forall>x \<in> set (event_handlers
                (snd (trigger_event (handler_call n hb tb td) event_id data
                        (after_calls k j m hb tb td w p)))).
      fst x = event_id \<longrightarrow>
      snd x \<notin> set (fst (trigger_event (handler_call n hb tb td) event_id data
                           (after_calls k j m hb tb td w p)))) \<and>
   (\<forall>h \<in> set (fst (trigger_event (handler_call n hb tb td) event_id data
                      (after_calls k j m hb tb td w p))).
      fst h < next_node (after_calls k j m hb tb td w p)) \<and>
   (\<forall>x \<in> set (event_handlers
                (snd (trigger_event (handler_call n hb tb td) event_id data
                        (after_calls k j m hb tb td w p)))).
      fst x = event_id \<longrightarrow> next_node (after_calls k j m hb tb td w p) \<le> fst (snd x))"
  using trigger_event_unfold [of "handler_call n hb tb td" event_id data "after_calls k j m hb tb td w p"]
    one_shot_numbered [of "handler_call n hb tb td" "after_calls k j m hb tb td w p" event_id data,
      OF adds_only_new_handler_call nodes_numbered_after_calls]
  by simp

text \<open>
  The closures 1 and 2 are registered for event 7 (nodes 0 and 2) and the closure 3 for
  event 8 (node 1); each closure registers itself again when called. A first trigger of
  event 7 calls the nodes 0 and 2, and the map then holds the new nodes 3 and 4 of the
  same closures, which were not called; no call was cut by the bound on the depth. A
  second trigger calls the nodes 3 and 4 and leaves the nodes 5 and 6. Ten steps are
  more than the code takes. After five steps the code is in the middle of its trigger:
  the first handler has registered node 3 and the second has not yet done so; a trigger
  at that point calls node 3 alone.
\<close>

theorem trigger_event_one_shot_witness:
  "event_handlers (after_calls 10 10 (Suc 0) resubscribing no_task no_task_done () three_subscriptions)
     = [(7, (0, 1)), (7, (2, 2)), (8, (1, 3))] \<and>
   fst (trigger_event (handler_call (Suc 0) resubscribing no_task no_task_done) 7 0
          (after_calls 10 10 (Suc 0) resubscribing no_task no_task_done () three_subscriptions))
     = [(0, 1), (2, 2)] \<and>
   event_handlers
     (snd (trigger_event (handler_call (Suc 0) resubscribing no_task no_task_done) 7 0
             (after_calls 10 10 (Suc 0) resubscribing no_task no_task_done () three_subscriptions)))
     = [(7, (3, 1)), (7, (4, 2)), (8, (1, 3))] \<and>
   \<not> out_of_fuel
     (snd (trigger_event (handler_call (Suc 0) resubscribing no_task no_task_done) 7 0
             (after_calls 10 10 (Suc 0) resubscribing no_task no_task_done () three_subscriptions))) \<and>
   fst (trigger_event (handler_call (Suc 0) resubscribing no_task no_task_done) 7 0
          (after_calls 10 10 (Suc 0) resubscribing no_task no_task_done ()
             three_subscriptions_and_trigger))
     = [(3, 1), (4, 2)] \<and>
   event_handlers
     (snd (trigger_event (handler_call (Suc 0) resubscribing no_task no_task_done) 7 0
             (after_calls 10 10 (Suc 0) resubscribing no_task no_task_done ()
                three_subscriptions_and_trigger)))
     = [(7, (5, 1)), (7, (6, 2)), (8, (1, 3))] \<and>
   event_handlers
     (after_calls 5 10 (Suc 0) resubscribing no_task no_task_done ()
        three_subscriptions_and_trigger)
     = [(7, (3, 1)), (8, (1, 3))] \<and>
   fst (trigger_event (handler_call (Suc 0) resubscribing no_task no_task_done) 7 0
          (after_calls 5 10 (Suc 0) resubscribing no_task no_task_done ()
             three_subscriptions_and_trigger))
     = [(3, 1)] \<and>
   event_handlers
     (snd (trigger_event (handler_call (Suc 0) resubscribing no_task no_task_done) 7 0
             (after_calls 5 10 (Suc 0) resubscribing no_task no_task_done ()
                three_subscriptions_and_trigger)))
     = [(7, (4, 1)), (8, (1, 3))]"
proof -
  note a = trigger_event_one_shot [of "Suc 0" resubscribing no_task no_task_done 7 0 10 10 "Suc 0" "()"
      three_subscriptions]
  note b = trigger_event_one_shot [of "Suc 0" resubscribing no_task no_task_done 7 0 10 10 "Suc 0" "()"
      three_subscriptions_and_trigger]
  have a1: "fst (trigger_event (handler_call (Suc 0) resubscribing no_task no_task_done) 7 0
          (after_calls 10 10 (Suc 0) resubscribing no_task no_task_done () three_subscriptions))
     = [(0, 1), (2, 2)]"
    using a by (simp add: after_three)
  have a2: "snd (trigger_event (handler_call (Suc 0) resubscribing no_task no_task_done) 7 0
          (after_calls 10 10 (Suc 0) resubscribing no_task no_task_done () three_subscriptions))
     = \<lparr>current_time = 0, ready_tasks = [], timed_tasks = [],
      event_handlers = [(7, (3, 1)), (7, (4, 2)), (8, (1, 3))], next_node = 5,
      steps_left = 8, out_of_fuel = False\<rparr>"
    using a by (simp add: after_three call_resubscribing subscribe_def register_event_handler_def)
  have b1: "fst (trigger_event (handler_call (Suc 0) resubscribing no_task no_task_done) 7 0
          (after_calls 10 10 (Suc 0) resubscribing no_task no_task_done ()
             three_subscriptions_and_trigger))
     = [(3, 1), (4, 2)]"
    using b by (simp add: after_three_and_trigger)
  have b2: "snd (trigger_event (handler_call (Suc 0) resubscribing no_task no_task_done) 7 0
          (after_calls 10 10 (Suc 0) resubscribing no_task no_task_done ()
             three_subscriptions_and_trigger))
     = \<lparr>current_time = 0, ready_tasks = [], timed_tasks = [],
      event_handlers = [(7, (5, 1)), (7, (6, 2)), (8, (1, 3))], next_node = 7,
      steps_left = 8, out_of_fuel = False\<rparr>"
    using b by (simp add: after_three_and_trigger call_resubscribing subscribe_def
        register_event_handler_def)
  note c = trigger_event_one_shot [of "Suc 0" resubscribing no_task no_task_done 7 0 5 10 "Suc 0" "()"
      three_subscriptions_and_trigger]
  have c1: "fst (trigger_event (handler_call (Suc 0) resubscribing no_task no_task_done) 7 0
          (after_calls 5 10 (Suc 0) resubscribing no_task no_task_done ()
             three_subscriptions_and_trigger))
     = [(3, 1)]"
    using c by (simp add: after_five)
  have c2: "snd (trigger_event (handler_call (Suc 0) resubscribing no_task no_task_done) 7 0
          (after_calls 5 10 (Suc 0) resubscribing no_task no_task_done ()
             three_subscriptions_and_trigger))
     = \<lparr>current_time = 0, ready_tasks = [], timed_tasks = [],
      event_handlers = [(7, (4, 1)), (8, (1, 3))], next_node = 5,
      steps_left = 9, out_of_fuel = False\<rparr>"
    using c by (simp add: after_five call_resubscribing subscribe_def
        register_event_handler_def)
  show ?thesis using a1 a2 b1 b2 c1 c2 by (simp add: after_three after_five)
qed

subsection \<open>The clock\<close>



subsection \<open>Power limits\<close>

text \<open>
  C4, as claimed: after any full update of a device, whatever its configuration, its
  \<open>current_power_kW\<close> lies within \<open>[min_output_kW, max_output_kW]\<close>. This fails. For a
  pile whose range is \<open>[-5, -1]\<close> and whose battery is full, the SOC guard stores 0,
  above the upper limit; for limits that are crossed (\<open>min_output_kW = 10\<close>,
  \<open>max_output_kW = -10\<close>) the clamp stores \<open>min_output_kW\<close>, above the upper limit.
\<close>

theorem power_outside_limits:
  "\<not> (current_power_kW (update_device (- 1) 0 0 charging_only_pile full_battery)
        \<le> max_output_kW charging_only_pile) \<and>
   \<not> (current_power_kW
         (update_device (- 1) 0 0 crossed_limits_ess \<lparr>current_power_kW = 0, soc = 1 / 2\<rparr>)
        \<le> max_output_kW crossed_limits_ess)"
  by (simp add: update_device_def ev_soc_guard_def limit_output_def frequency_response_def
      charging_only_pile_def full_battery_def crossed_limits_ess_def Let_def)

text \<open>
  C4, amended: for a configuration with \<open>min_output_kW \<le> max_output_kW\<close> and, for an
  EV pile, with 0 in that range, the \<open>current_power_kW\<close> of a device after a full update
  lies within \<open>[min_output_kW, max_output_kW]\<close>, for every SOC, every frequency deviation
  and every time since the last update; and that is the value stored in the registry
  for a managed entity that has both components.
\<close>

theorem update_device_power_in_limits:
  assumes "min_output_kW config \<le> max_output_kW config"
    and "type config = EV_PILE \<longrightarrow> min_output_kW config \<le> 0 \<and> 0 \<le> max_output_kW config"
  shows "min_output_kW config \<le> current_power_kW (update_device lf dt fd config state) \<and>
         current_power_kW (update_device lf dt fd config state) \<le> max_output_kW config \<and>
         (get_config r e = Some config \<and> get_state r e = Some state \<longrightarrow>
            get_state (update_entity lf dt fd e r) e = Some (update_device lf dt fd config state))"
proof -
  let ?st1 = "if lf \<ge> 0 \<and> dt > 1 / 1000000 then integrate_soc config dt state else state"
  let ?p = "limit_output config (frequency_response config ?st1 fd)"
  have "min_output_kW config \<le> ?p \<and> ?p \<le> max_output_kW config"
    using assms(1) by (rule limit_output_in_limits)
  then have "min_output_kW config \<le> ev_soc_guard config ?st1 ?p \<and>
      ev_soc_guard config ?st1 ?p \<le> max_output_kW config"
    using ev_soc_guard_in_limits assms(2) by blast
  moreover have "current_power_kW (update_device lf dt fd config state)
      = ev_soc_guard config ?st1 ?p"
    by (simp add: update_device_def Let_def)
  ultimately show ?thesis
    by (simp add: update_entity_def get_state_put_state)
qed

text \<open>
  With the configurations of \<open>main\<close>: a storage unit at \<open>-0.2\<close> Hz delivers
  \<open>113.33\<close> kW; a pile with a full battery at \<open>-0.2\<close> Hz delivers \<open>0.68\<close> kW, and at
  \<open>+0.3\<close> Hz the SOC guard sets it to 0, which is within its limits.
\<close>

theorem update_device_power_in_limits_witness:
  "min_output_kW main_ess
     \<le> current_power_kW
         (update_device 5 (1 / 10) (- 2 / 10) main_ess \<lparr>current_power_kW = 0, soc = 7 / 10\<rparr>) \<and>
   current_power_kW
     (update_device 5 (1 / 10) (- 2 / 10) main_ess \<lparr>current_power_kW = 0, soc = 7 / 10\<rparr>)
     \<le> max_output_kW main_ess \<and>
   current_power_kW
     (update_device 5 (1 / 10) (- 2 / 10) main_ess \<lparr>current_power_kW = 0, soc = 7 / 10\<rparr>)
     = 340 / 3 \<and>
   current_power_kW
     (update_device 5 (1 / 10) (- 2 / 10) main_ev \<lparr>current_power_kW = - 5, soc = 97 / 100\<rparr>)
     = 68 / 100 \<and>
   current_power_kW
     (update_device 5 (1 / 10) (3 / 10) main_ev \<lparr>current_power_kW = - 5, soc = 97 / 100\<rparr>)
     = 0"
proof -
  have a: "min_output_kW main_ess \<le> max_output_kW main_ess"
    "type main_ess = EV_PILE \<longrightarrow> min_output_kW main_ess \<le> 0 \<and> 0 \<le> max_output_kW main_ess"
    "min_output_kW main_ev \<le> max_output_kW main_ev"
    "type main_ev = EV_PILE \<longrightarrow> min_output_kW main_ev \<le> 0 \<and> 0 \<le> max_output_kW main_ev"
    by (simp_all add: main_ess_def main_ev_def)
  note update_device_power_in_limits [OF a(1,2), of 5 "1 / 10" "- 2 / 10"
      "\<lparr>current_power_kW = 0, soc = 7 / 10\<rparr>"]
    update_device_power_in_limits [OF a(3,4), of 5 "1 / 10" "- 2 / 10"
      "\<lparr>current_power_kW = - 5, soc = 97 / 100\<rparr>"]
  then show ?thesis
    by (simp add: update_device_def ev_soc_guard_def limit_output_def frequency_response_def
      integrate_soc_def main_ess_def main_ev_def Let_def)
qed

subsection \<open>Distance protection\<close>

text \<open>
  C5. For a distance protection built with zones \<open>z1 \<le> z2 \<le> z3\<close> and delays
  \<open>t1, t2, t3\<close>: when the fault is on a different entity (its \<open>faulty_entity_id\<close> is
  neither the protected entity's id nor 0) \<open>pick_up\<close> is true exactly when
  \<open>impedance_Ohm \<le> z3\<close>; otherwise it is true exactly when the impedance is within
  some zone; and \<open>trip_delay_ms\<close> is \<open>t1\<close> if \<open>impedance_Ohm \<le> z1\<close>, else \<open>t2\<close> if
  \<open>\<le> z2\<close>, else \<open>t3\<close> if \<open>\<le> z3\<close>, else 99999.
\<close>

theorem distance_protection_spec:
  assumes "z1 \<le> z2" and "z2 \<le> z3"
  shows "(faulty_entity_id f \<noteq> self \<and> faulty_entity_id f \<noteq> 0 \<longrightarrow>
            pick_up (Distance (new_DistanceProtection z1 t1 z2 t2 z3 t3)) f self
              = (impedance_Ohm f \<le> z3)) \<and>
         (\<not> (faulty_entity_id f \<noteq> self \<and> faulty_entity_id f \<noteq> 0) \<longrightarrow>
            pick_up (Distance (new_DistanceProtection z1 t1 z2 t2 z3 t3)) f self
              = (impedance_Ohm f \<le> z1 \<or> impedance_Ohm f \<le> z2 \<or> impedance_Ohm f \<le> z3)) \<and>
         trip_delay_ms (Distance (new_DistanceProtection z1 t1 z2 t2 z3 t3)) f
           = (if impedance_Ohm f \<le> z1 then t1
              else if impedance_Ohm f \<le> z2 then t2
              else if impedance_Ohm f \<le> z3 then t3
              else 99999)"
  by (simp add: new_DistanceProtection_def dist_pick_up_def dist_trip_delay_ms_def)

text \<open>
  The zones of \<open>main\<close>, protecting entity 1: a fault of 20 Ohm on entity 2 is picked up
  and one of 30 Ohm is not; a fault of 12 Ohm on entity 1 is picked up, with the delay of
  zone 2; 30 Ohm is in no zone.
\<close>

theorem distance_protection_witness:
  "((5::real) \<le> 15 \<and> (15::real) \<le> 25) \<and>
   pick_up (Distance (new_DistanceProtection 5 0 15 300 25 700))
     (FaultInfo_default\<lparr>impedance_Ohm := 20, faulty_entity_id := 2\<rparr>) 1 \<and>
   \<not> pick_up (Distance (new_DistanceProtection 5 0 15 300 25 700))
     (FaultInfo_default\<lparr>impedance_Ohm := 30, faulty_entity_id := 2\<rparr>) 1 \<and>
   pick_up (Distance (new_DistanceProtection 5 0 15 300 25 700))
     (FaultInfo_default\<lparr>impedance_Ohm := 12, faulty_entity_id := 1\<rparr>) 1 \<and>
   trip_delay_ms (Distance (new_DistanceProtection 5 0 15 300 25 700))
     (FaultInfo_default\<lparr>impedance_Ohm := 12, faulty_entity_id := 1\<rparr>) = 300 \<and>
   trip_delay_ms (Distance (new_DistanceProtection 5 0 15 300 25 700))
     (FaultInfo_default\<lparr>impedance_Ohm := 30, faulty_entity_id := 1\<rparr>) = 99999"
  using distance_protection_spec [of 5 15 25
      "FaultInfo_default\<lparr>impedance_Ohm := 20, faulty_entity_id := 2\<rparr>" 1 0 300 700]
    distance_protection_spec [of 5 15 25
      "FaultInfo_default\<lparr>impedance_Ohm := 30, faulty_entity_id := 2\<rparr>" 1 0 300 700]
    distance_protection_spec [of 5 15 25
      "FaultInfo_default\<lparr>impedance_Ohm := 12, faulty_entity_id := 1\<rparr>" 1 0 300 700]
    distance_protection_spec [of 5 15 25
      "FaultInfo_default\<lparr>impedance_Ohm := 30, faulty_entity_id := 1\<rparr>" 1 0 300 700]
  by (simp add: FaultInfo_default_def)

subsection \<open>Impedance derivation\<close>




subsection \<open>Dedupe of frequency events\<close>

text \<open>
  C7, as claimed: two deliveries in succession of the same \<open>FrequencyInfo\<close> cause
  exactly one full update. This fails when the first delivery causes none: after a full
  update at 1 s with deviation 0, the sample (1.5 s, 0.005 Hz) passes the dedupe but not
  the gate, and its second delivery is discarded, so the two deliveries cause no full
  update.
\<close>

theorem two_deliveries_no_full_update:
  "full_updates_of_two_deliveries [1] small_change after_first_update = 0"
  by (simp add: full_updates_of_two_deliveries_def vpp_on_event_def gating_def Let_def
      after_first_update_locals small_change_def FREQUENCY_CHANGE_THRESHOLD_HZ_def
      TIME_THRESHOLD_SECONDS_def)

text \<open>
  C7, amended: two deliveries in succession of the same \<open>FrequencyInfo\<close> cause at most
  one full update, and exactly one when the first delivery causes one (as it does on a
  new controller for every \<open>sim_time_seconds > -1\<close>): the second delivery has
  \<open>sim_time_seconds \<le> last_processed_event_time_s\<close> and is discarded before the gate
  and before any device is touched, so the controller's locals and the registry are
  left as they were.
\<close>

theorem second_delivery_is_discarded:
  "current_sim_time_seconds info
     \<le> last_processed_event_time_s (fst (snd (vpp_on_event m info st))) \<and>
   vpp_on_event m info (snd (vpp_on_event m info st)) = (False, snd (vpp_on_event m info st)) \<and>
   full_updates_of_two_deliveries m info st = (if fst (vpp_on_event m info st) then 1 else 0) \<and>
   (fst st = VppState_init \<and> - 1 < current_sim_time_seconds info \<longrightarrow>
      full_updates_of_two_deliveries m info st = 1)"
proof -
  have d: "current_sim_time_seconds info
     \<le> last_processed_event_time_s (fst (snd (vpp_on_event m info st)))"
    by (rule dedupe_time_after_delivery)
  then have s: "vpp_on_event m info (snd (vpp_on_event m info st))
      = (False, snd (vpp_on_event m info st))"
    by (simp add: vpp_on_event_def [of m info "snd (vpp_on_event m info st)"] Let_def)
  then have c: "full_updates_of_two_deliveries m info st
      = (if fst (vpp_on_event m info st) then 1 else 0)"
    by (simp add: full_updates_of_two_deliveries_def Let_def)
  have "fst (vpp_on_event m info st)"
    if "fst st = VppState_init" and "- 1 < current_sim_time_seconds info"
    using that by (simp add: vpp_on_event_def gating_def VppState_init_def Let_def)
  with d s c show ?thesis by simp
qed

text \<open>
  A new controller that manages one storage unit: the sample (5.1 s, \<open>-0.2\<close> Hz),
  delivered twice, causes one full update, and after the second delivery the unit
  delivers the \<open>113.33\<close> kW that the first one set.
\<close>

theorem second_delivery_is_discarded_witness:
  "full_updates_of_two_deliveries [1]
     \<lparr>current_sim_time_seconds = 51 / 10, freq_deviation_hz = - 2 / 10\<rparr>
     (VppState_init, one_ess_registry) = 1 \<and>
   get_state
     (snd (snd (vpp_on_event [1] \<lparr>current_sim_time_seconds = 51 / 10, freq_deviation_hz = - 2 / 10\<rparr>
        (snd (vpp_on_event [1] \<lparr>current_sim_time_seconds = 51 / 10, freq_deviation_hz = - 2 / 10\<rparr>
           (VppState_init, one_ess_registry)))))) 1
     = Some \<lparr>current_power_kW = 340 / 3, soc = 7 / 10\<rparr>"
proof -
  let ?info = "\<lparr>current_sim_time_seconds = 51 / 10, freq_deviation_hz = - 2 / 10\<rparr>"
  note t = second_delivery_is_discarded [of ?info "[1]" "(VppState_init, one_ess_registry)"]
  have one: "full_updates_of_two_deliveries [1] ?info (VppState_init, one_ess_registry) = 1"
    using t by simp
  have reg: "one_ess_registry = \<lparr>last_id = 1, components =
     [FrequencyControlConfigComponent_tag \<mapsto> [(1, FrequencyControlConfig main_ess)],
      PhysicalStateComponent_tag \<mapsto> [(1, PhysicalState \<lparr>current_power_kW = 0, soc = 7 / 10\<rparr>)]]\<rparr>"
    by (simp add: one_ess_registry_def create_def emplace_def store_def Registry_init_def
        entity_map_def Let_def)
  have "get_state (snd (snd (vpp_on_event [1] ?info (VppState_init, one_ess_registry)))) 1
     = Some \<lparr>current_power_kW = 340 / 3, soc = 7 / 10\<rparr>"
    by (simp add: reg vpp_on_event_def gating_def VppState_init_def update_entity_def
        get_config_def get_state_def get_def put_state_def store_def entity_map_def
        update_device_def ev_soc_guard_def limit_output_def frequency_response_def main_ess_def
        Let_def)
  then show ?thesis using t one by simp
qed

subsection \<open>Timer jump\<close>

text \<open>
  C8. When the ready queue is empty and exactly one timer is pending, at a deadline \<open>d\<close>
  after \<open>now\<close>, one call of \<open>run_one_step\<close> sets \<open>now\<close> to \<open>d\<close>, moves that one
  coroutine to the ready queue, leaves the timer queue empty and returns true; nothing
  else changes and no coroutine is resumed.
\<close>

theorem timer_jump:
  assumes "ready_tasks s = []" and "timed_tasks s = [(d, h)]" and "current_time s < d"
  shows "run_one_step h_done h_resume s
           = (True, s\<lparr>current_time := d, timed_tasks := [], ready_tasks := [h]\<rparr>)"
  using assms by (simp add: run_one_step_def set_time_def Let_def)

text \<open>A new scheduler with coroutine 7 due after 100 ms.\<close>

theorem timer_jump_witness:
  "run_one_step never_done periodic_task (schedule_after 100 7 Scheduler_init)
     = (True, \<lparr>current_time = 100, ready_tasks = [7], timed_tasks = [], event_handlers = []\<rparr>)"
proof -
  have "ready_tasks (schedule_after 100 7 (Scheduler_init :: nat Scheduler)) = []"
    "timed_tasks (schedule_after 100 7 (Scheduler_init :: nat Scheduler)) = [(100, 7)]"
    "current_time (schedule_after 100 7 (Scheduler_init :: nat Scheduler)) < 100"
    by (simp_all add: schedule_after_def Scheduler_init_def)
  from timer_jump [OF this, of never_done periodic_task]
  show ?thesis by (simp add: schedule_after_def Scheduler_init_def)
qed

subsection \<open>Deadband\<close>

text \<open>
  C9. In a full update, when the absolute frequency deviation is equal to or below the
  device's \<open>deadband_Hz\<close>, the device does not respond: the power computed before the
  limits is \<open>base_power_kW\<close>. The response needs \<open>|freq_dev| > deadband_Hz\<close>, strictly.
\<close>

theorem no_response_within_deadband:
  assumes "\<bar>freq_dev\<bar> \<le> deadband_Hz config"
  shows "frequency_response config state freq_dev = base_power_kW config"
  using assms by (simp add: frequency_response_def)

text \<open>
  The devices of \<open>main\<close>, whose deadband is 0.03 Hz, at \<open>+0.03\<close>, \<open>-0.03\<close> and
  \<open>-0.02\<close> Hz.
\<close>

theorem no_response_within_deadband_witness:
  "frequency_response main_ess \<lparr>current_power_kW = 50, soc = 7 / 10\<rparr> (3 / 100) = 0 \<and>
   frequency_response main_ev \<lparr>current_power_kW = 0, soc = 7 / 10\<rparr> (- 3 / 100) = - 5 \<and>
   frequency_response main_ev \<lparr>current_power_kW = 0, soc = 7 / 10\<rparr> (- 2 / 100) = - 5"
proof -
  have "\<bar>3 / 100 :: real\<bar> \<le> deadband_Hz main_ess" "\<bar>- 3 / 100 :: real\<bar> \<le> deadband_Hz main_ev"
    "\<bar>- 2 / 100 :: real\<bar> \<le> deadband_Hz main_ev"
    by (simp_all add: main_ess_def main_ev_def)
  then show ?thesis
    using no_response_within_deadband [of "3 / 100" main_ess "\<lparr>current_power_kW = 50, soc = 7 / 10\<rparr>"]
      no_response_within_deadband [of "- 3 / 100" main_ev "\<lparr>current_power_kW = 0, soc = 7 / 10\<rparr>"]
      no_response_within_deadband [of "- 2 / 100" main_ev "\<lparr>current_power_kW = 0, soc = 7 / 10\<rparr>"]
    by (simp add: main_ess_def main_ev_def)
qed

subsection \<open>Detaching a task\<close>

text \<open>
  C10. After \<open>detach()\<close> the task's handle is null and \<open>is_done()\<close> returns true,
  whether or not the coroutine has run to completion. \<open>detach\<close> leaves the coroutine
  frames as they are (it neither destroys nor resumes a coroutine), and the destructor
  of a detached task destroys no frame.
\<close>

theorem detach_then_done:
  "handle (fst (detach t fr)) = None \<and>
   snd (detach t fr) = fr \<and>
   is_done (fst (detach t fr)) (snd (detach t fr)) = Some True \<and>
   Task_destructor (fst (detach t fr)) (snd (detach t fr)) = Some fr"
  by (simp add: detach_def is_done_def Task_destructor_def)

text \<open>
  A task that owns the suspended, unfinished coroutine 7: it is not done, and its
  destructor would destroy the frame; once detached it is done, and its destructor
  leaves the frame.
\<close>

theorem detach_then_done_witness:
  "is_done \<lparr>handle = Some 7\<rparr> [7 \<mapsto> False] = Some False \<and>
   Task_destructor \<lparr>handle = Some 7\<rparr> [7 \<mapsto> False] = Some Map.empty \<and>
   is_done (fst (detach \<lparr>handle = Some 7\<rparr> [7 \<mapsto> False]))
     (snd (detach \<lparr>handle = Some 7\<rparr> [7 \<mapsto> False])) = Some True \<and>
   Task_destructor (fst (detach \<lparr>handle = Some 7\<rparr> [7 \<mapsto> False]))
     (snd (detach \<lparr>handle = Some 7\<rparr> [7 \<mapsto> False])) = Some [7 \<mapsto> False]"
  using detach_then_done [of "\<lparr>handle = Some 7\<rparr>" "[7 \<mapsto> False]"]
  by (simp add: is_done_def Task_destructor_def)

end
